theory Spec2Isabelle
  imports Complex_Main "HOL-Library.Word" "HOL-Library.Sublist" "HOL-Library.Multiset"
begin

unbundle bit_operations_syntax

section \<open>Data model\<close>

text \<open>
  The reconciliation core of the repository: \<^verbatim>\<open>utils.ts\<close> (amountsMatch, combinations,
  getTotalAmount) and \<^verbatim>\<open>Joiner.ts\<close> (the three match strategies, transactionMatches and
  Joiner.joinOrders), with the entity shapes of \<^verbatim>\<open>AmazonClient.ts\<close> and \<^verbatim>\<open>MintClient.ts\<close>.

  Conventions of the embedding.
  \<^item> A JavaScript number is an exact rational (\<^typ>\<open>rat\<close>): IEEE rounding of the
    additions and NaN are not modelled; \<^verbatim>\<open>toFixed(2)\<close> is rounding to the nearest
    hundredth, ties away from zero. The concrete inputs used below have amounts that
    are integers, on which the double arithmetic of the source is exact; the one input
    with amounts in ten-thousandths has every comparison decided by a margin of 0.0001.
    In doubles \<^verbatim>\<open>Math.abs(a - b) < 0.01\<close> also holds for some amounts one cent apart
    (-51.79 and -51.8), so no statement below relies on two matching amounts of whole
    cents being equal: a bound on amounts is stated with room for it.
  \<^item> A \<^verbatim>\<open>Date\<close> is its \<^verbatim>\<open>getTime()\<close> value, an \<^typ>\<open>int\<close> of milliseconds.
  \<^item> An object is a pair of its identity and its value. \<^verbatim>\<open>indexOf\<close> compares
    identities only. The objects of one array are pairwise distinct: \<^verbatim>\<open>cloneDeep\<close>
    and \<^verbatim>\<open>map\<close> create fresh objects, which the model numbers by position.
  \<^item> A thrown exception is \<^term>\<open>None\<close>.
\<close>

type_synonym 'a obj = "nat \<times> 'a"

text \<open>
  Field names carry a prefix for their record (\<open>t_amount\<close> is the \<^verbatim>\<open>amount\<close> of a \<^verbatim>\<open>Transaction\<close>),
  since the source reuses \<^verbatim>\<open>amount\<close>, \<^verbatim>\<open>items\<close> and \<^verbatim>\<open>description\<close> across its
  interfaces and as names of local variables.
\<close>

record Item =
  i_description :: string
  i_amount :: rat

record Shipment =
  s_trackingId :: string
  s_shipmentDate :: int
  s_amount :: rat
  s_items :: "Item list"

record 's Order =
  o_orderId :: string
  o_orderDate :: int
  o_usedGiftCard :: bool
  o_shipments :: "'s list"

record Return =
  r_orderId :: string
  r_returnDate :: int
  r_amount :: rat
  r_items :: "Item list"

record ChildTransaction =
  c_description :: string
  c_amount :: rat

record Transaction =
  t_id :: string
  t_amount :: rat
  t_date :: int
  t_children :: "ChildTransaction list"

record JoinedRecordItem =
  ji_trackingId :: string
  ji_description :: string
  ji_amount :: rat

record JoinedRecord =
  j_mintTransactionId :: string
  j_orderId :: string
  j_orderDate :: int
  j_amount :: rat
  j_items :: "JoinedRecordItem list"
  j_isUnmodified :: bool

record GiftCard =
  g_orderId :: string
  g_amount :: rat

text \<open>The local variables of \<^verbatim>\<open>joinOrders\<close> that its loops read and write.\<close>

record State =
  v_mintTransactions :: "Transaction obj list"
  v_amazonOrders :: "(Shipment obj) Order obj list"
  v_amazonReturns :: "Return obj list"
  v_joinedRecords :: "JoinedRecord list"
  v_giftCards :: "GiftCard list"

text \<open>The object that \<^verbatim>\<open>joinOrders\<close> returns.\<close>

record Result =
  res_joinedRecords :: "JoinedRecord list"
  res_remainingMintTransactions :: "Transaction list"
  res_remainingAmazonOrders :: "Shipment Order list"
  res_remainingAmazonReturns :: "Return list"

section \<open>utils.ts\<close>

definition amountsMatch :: "rat \<Rightarrow> rat \<Rightarrow> bool" where
  "amountsMatch a b = (\<bar>a - b\<bar> < 1 / 100)"

text \<open>\<^verbatim>\<open>1 << n\<close>: a 32-bit shift, the count taken modulo 32.\<close>

definition shl1 :: "nat \<Rightarrow> 32 word" where
  "shl1 n = push_bit (n mod 32) 1"

text \<open>\<^verbatim>\<open>array.filter((e2, j) => (i + 1) & (1 << j))\<close>, for the index \<open>i\<close> of the outer map.\<close>

definition maskFilter :: "'a list \<Rightarrow> nat \<Rightarrow> 'a list" where
  "maskFilter array i =
     map fst (filter (\<lambda>(e2, j). (word_of_nat (i + 1) AND shl1 j) \<noteq> 0)
                (zip array [0..<length array]))"

text \<open>
  \<^verbatim>\<open>new Array((1 << array.length) - 1)\<close> throws a RangeError when the length is
  negative.
\<close>

definition combinations :: "'a list \<Rightarrow> 'a list list option" where
  "combinations array =
     (let len = sint (shl1 (length array)) - 1 in
      if len < 0 then None
      else Some (map (\<lambda>i. maskFilter array i) [0..<nat len]))"

text \<open>\<^verbatim>\<open>Number(x.toFixed(2))\<close>.\<close>

definition toFixed2 :: "rat \<Rightarrow> rat" where
  "toFixed2 x =
     (if x < 0 then - (of_int \<lfloor>(- x) * 100 + 1 / 2\<rfloor> / 100)
      else of_int \<lfloor>x * 100 + 1 / 2\<rfloor> / 100)"

text \<open>The argument is the list of the \<^verbatim>\<open>amount\<close> fields of the source's argument.\<close>

definition getTotalAmount :: "rat list \<Rightarrow> rat" where
  "getTotalAmount amounts = toFixed2 (foldl (\<lambda>amount item. amount + item) 0 amounts)"

section \<open>Joiner.ts: helpers\<close>

definition WINDOW_MS :: int where
  "WINDOW_MS = 14 * 24 * 60 * 60 * 1000"

definition DESCRIPTION_PREFIX :: string where
  "DESCRIPTION_PREFIX = ''Amazon - ''"

definition GIFT_CARD_DESCRIPTION :: string where
  "GIFT_CARD_DESCRIPTION = ''Gift Card''"

definition getTimeDelta :: "int \<Rightarrow> int \<Rightarrow> int" where
  "getTimeDelta a b = \<bar>a - b\<bar>"

text \<open>\<^verbatim>\<open>indexOf\<close> finds the first element identical to \<open>item\<close>; \<^verbatim>\<open>splice\<close> removes it.\<close>

fun removeItem :: "'a obj list \<Rightarrow> 'a obj \<Rightarrow> 'a obj list" where
  "removeItem [] item = []"
| "removeItem (x # xs) item = (if fst x = fst item then xs else x # removeItem xs item)"

definition inRange :: "int \<Rightarrow> int \<Rightarrow> bool" where
  "inRange candidate start = (candidate \<ge> start \<and> candidate \<le> start + WINDOW_MS)"

text \<open>
  \<^verbatim>\<open>String.prototype.trim\<close> strips the white space and the line terminators of
  ECMAScript from both ends. A string is the list of its code units, and a \<^typ>\<open>char\<close>
  is a code unit below 256; of these, white space and line terminators are TAB, LF, VT,
  FF, CR, SP and the no-break space U+00A0. (The others are above 255: U+1680,
  U+2000 to U+200A, U+2028, U+2029, U+202F, U+205F, U+3000 and U+FEFF.)
\<close>

definition isWhiteSpace :: "char \<Rightarrow> bool" where
  "isWhiteSpace c =
     (c \<in> set [CHR 0x09, CHR 0x0A, CHR 0x0B, CHR 0x0C, CHR 0x0D, CHR '' '', CHR 0xA0])"

definition trim :: "string \<Rightarrow> string" where
  "trim s = rev (dropWhile isWhiteSpace (rev (dropWhile isWhiteSpace s)))"

section \<open>Joiner.ts: the match strategies\<close>

definition getExactMatches ::
  "Shipment obj list \<Rightarrow> rat \<Rightarrow> (Shipment obj) Order \<Rightarrow> Return obj list \<Rightarrow> Transaction obj list
   \<Rightarrow> Transaction obj list" where
  "getExactMatches shipments amount amazonOrder amazonReturns mintTransactions =
     (case sort_key (\<lambda>a. getTimeDelta (t_date (snd a)) (o_orderDate amazonOrder))
             (filter (\<lambda>mintTransaction. amountsMatch (t_amount (snd mintTransaction)) amount)
               (filter (\<lambda>mintTransaction. inRange (t_date (snd mintTransaction))
                                                 (o_orderDate amazonOrder))
                 (filter (\<lambda>mintTransaction. t_amount (snd mintTransaction) < 0)
                    mintTransactions)))
      of [] \<Rightarrow> []
       | mintTransaction # _ \<Rightarrow> [mintTransaction])"

definition getCombinationMatches ::
  "Shipment obj list \<Rightarrow> rat \<Rightarrow> (Shipment obj) Order \<Rightarrow> Return obj list \<Rightarrow> Transaction obj list
   \<Rightarrow> Transaction obj list option" where
  "getCombinationMatches shipments amount amazonOrder amazonReturns mintTransactions =
     (case combinations
             (sort_key (\<lambda>a. getTimeDelta (t_date (snd a)) (o_orderDate amazonOrder))
               (filter (\<lambda>mintTransaction. inRange (t_date (snd mintTransaction))
                                                 (o_orderDate amazonOrder))
                 (filter (\<lambda>mintTransaction. t_amount (snd mintTransaction) < 0)
                    mintTransactions)))
      of None \<Rightarrow> None
       | Some cs \<Rightarrow>
           (case List.find
                   (\<lambda>transactionCombination.
                      amountsMatch
                        (getTotalAmount (map (\<lambda>t. t_amount (snd t)) transactionCombination))
                        amount)
                   (filter (\<lambda>combination. length combination \<ge> 2) cs)
            of None \<Rightarrow> Some []
             | Some transactionCombination \<Rightarrow> Some transactionCombination))"

text \<open>
  The Gift-Card strategy also writes: it pushes items onto \<^verbatim>\<open>shipments[0].items\<close> and
  removes the absorbed return from the \<^verbatim>\<open>amazonReturns\<close> array. It returns the matches,
  the shipment group and the returns array as it leaves them. \<^verbatim>\<open>shipments[0]\<close> of an
  empty group is \<^verbatim>\<open>undefined\<close>, and reading its \<^verbatim>\<open>items\<close> throws.
\<close>

definition pushItems :: "Shipment obj list \<Rightarrow> Item list \<Rightarrow> Shipment obj list option" where
  "pushItems shipments new =
     (case shipments of
        [] \<Rightarrow> None
      | s0 # rest \<Rightarrow>
          Some ((fst s0, (snd s0)\<lparr>s_items := s_items (snd s0) @ new\<rparr>) # rest))"

definition getGiftCardMatches ::
  "Shipment obj list \<Rightarrow> rat \<Rightarrow> (Shipment obj) Order \<Rightarrow> Return obj list \<Rightarrow> Transaction obj list
   \<Rightarrow> (Transaction obj list \<times> Shipment obj list \<times> Return obj list) option" where
  "getGiftCardMatches shipments amount amazonOrder amazonReturns mintTransactions =
     (if \<not> o_usedGiftCard amazonOrder then Some ([], shipments, amazonReturns)
      else
        (case sort_key (\<lambda>a. \<bar>t_amount (snd a) - amount\<bar>)
                (filter (\<lambda>mintTransaction. t_amount (snd mintTransaction) > amount)
                  (filter (\<lambda>mintTransaction. inRange (t_date (snd mintTransaction))
                                                    (o_orderDate amazonOrder))
                    (filter (\<lambda>mintTransaction. t_amount (snd mintTransaction) < 0)
                       mintTransactions)))
         of [] \<Rightarrow> Some ([], shipments, amazonReturns)
          | mintTransaction # _ \<Rightarrow>
              (let giftCardAmount = amount - t_amount (snd mintTransaction) in
               (case List.find (\<lambda>returnRecord. amountsMatch (r_amount (snd returnRecord))
                                                           (- giftCardAmount))
                       amazonReturns
                of Some matchingReturn \<Rightarrow>
                     (case pushItems shipments
                             (map (\<lambda>item. \<lparr>i_description = i_description item,
                                            i_amount = - i_amount item\<rparr>)
                                (r_items (snd matchingReturn)))
                      of None \<Rightarrow> None
                       | Some shipments' \<Rightarrow>
                           Some ([mintTransaction], shipments',
                                 removeItem amazonReturns matchingReturn))
                 | None \<Rightarrow>
                     (case pushItems shipments
                             [\<lparr>i_description = GIFT_CARD_DESCRIPTION,
                               i_amount = toFixed2 (- giftCardAmount)\<rparr>]
                      of None \<Rightarrow> None
                       | Some shipments' \<Rightarrow> Some ([mintTransaction], shipments', amazonReturns))))))"

definition transactionMatches :: "JoinedRecord \<Rightarrow> Transaction \<Rightarrow> bool" where
  "transactionMatches joinedRecord mintTransaction =
     (if length (t_children mintTransaction) \<noteq> length (j_items joinedRecord)
      then False
      else list_all
             (\<lambda>item. List.find
                        (\<lambda>child. amountsMatch (c_amount child)
                                               (ji_amount item)
                                  \<and> trim (c_description child)
                                      = trim (ji_description item))
                        (t_children mintTransaction) \<noteq> None)
             (j_items joinedRecord))"

section \<open>Joiner.joinOrders: the item allocation for one matched transaction\<close>

text \<open>
  \<^verbatim>\<open>shipments.flatMap(shipment => shipment.items.map(item => ({...})))\<close>: fresh objects,
  numbered by position.
\<close>

definition flattenItems :: "Shipment obj list \<Rightarrow> JoinedRecordItem obj list" where
  "flattenItems shipments =
     enumerate 0
       (concat (map (\<lambda>shipment.
                  map (\<lambda>item. \<lparr>ji_trackingId = s_trackingId (snd shipment),
                               ji_description = DESCRIPTION_PREFIX @ i_description item,
                               ji_amount = i_amount item\<rparr>)
                      (s_items (snd shipment)))
                shipments))"

text \<open>
  The loop over \<^verbatim>\<open>combinations(items)\<close>, an array built before the loop starts: every
  combination that matches overwrites \<^verbatim>\<open>matchItems\<close> and has its members removed from
  \<^verbatim>\<open>items\<close>; there is no \<^verbatim>\<open>break\<close>.
\<close>

fun exactScan ::
  "JoinedRecordItem obj list list \<Rightarrow> rat \<Rightarrow> JoinedRecordItem obj list \<Rightarrow> JoinedRecordItem obj list
   \<Rightarrow> JoinedRecordItem obj list \<times> JoinedRecordItem obj list" where
  "exactScan [] matchAmount matchItems items = (matchItems, items)"
| "exactScan (itemCombination # rest) matchAmount matchItems items =
     (if amountsMatch (getTotalAmount (map (\<lambda>item. ji_amount (snd item)) itemCombination))
                      matchAmount
      then exactScan rest matchAmount itemCombination (foldl removeItem items itemCombination)
      else exactScan rest matchAmount matchItems items)"

text \<open>
  The \<^verbatim>\<open>while (items.length > 0 && remainingAmount < 0)\<close> loop. Its \<^verbatim>\<open>item\<close> is
  \<^verbatim>\<open>items[0]\<close>, so \<^verbatim>\<open>removeItem(items, item)\<close> leaves the tail.
\<close>

fun splitItems ::
  "JoinedRecordItem obj list \<Rightarrow> rat \<Rightarrow> JoinedRecordItem obj list
   \<Rightarrow> JoinedRecordItem obj list \<times> JoinedRecordItem obj list \<times> rat" where
  "splitItems [] remainingAmount matchItems = (matchItems, [], remainingAmount)"
| "splitItems (item # items) remainingAmount matchItems =
     (if remainingAmount < 0
      then splitItems items (remainingAmount - ji_amount (snd item)) (matchItems @ [item])
      else (matchItems, item # items, remainingAmount))"

text \<open>The allocation for one match: the items of its record, and the pool left.\<close>

definition allocateItems ::
  "JoinedRecordItem obj list \<Rightarrow> rat \<Rightarrow> (JoinedRecordItem list \<times> JoinedRecordItem obj list) option"
  where
  "allocateItems items matchAmount =
     (case combinations items of
        None \<Rightarrow> None
      | Some itemCombinations \<Rightarrow>
          (case exactScan itemCombinations matchAmount [] items of
             (matchItems, items') \<Rightarrow>
               if length matchItems = 0
               then (case splitItems items' matchAmount [] of
                       (matchItems', items'', remainingAmount) \<Rightarrow>
                         Some (map snd matchItems' @
                                 (if \<not> amountsMatch remainingAmount 0
                                  then [\<lparr>ji_trackingId = ''none'',
                                         ji_description = DESCRIPTION_PREFIX @ ''Balance Adjust'',
                                         ji_amount = remainingAmount\<rparr>]
                                  else []),
                               items''))
               else Some (map snd matchItems, items')))"

text \<open>The body of \<^verbatim>\<open>for (const match of matches)\<close>, and the loop.\<close>

definition makeRecord ::
  "(Shipment obj) Order \<Rightarrow> Transaction \<Rightarrow> JoinedRecordItem list \<Rightarrow> JoinedRecord" where
  "makeRecord amazonOrder match matchItems =
     (let joinedRecord = \<lparr>j_mintTransactionId = t_id match,
                           j_orderId = o_orderId amazonOrder,
                           j_orderDate = o_orderDate amazonOrder,
                           j_amount = t_amount match,
                           j_items = matchItems,
                           j_isUnmodified = False\<rparr>
      in joinedRecord\<lparr>j_isUnmodified := transactionMatches joinedRecord match\<rparr>)"

fun matchesLoop ::
  "Transaction obj list \<Rightarrow> (Shipment obj) Order \<Rightarrow> JoinedRecordItem obj list \<Rightarrow> State
   \<Rightarrow> (JoinedRecordItem obj list \<times> State) option" where
  "matchesLoop [] amazonOrder items st = Some (items, st)"
| "matchesLoop (match # rest) amazonOrder items st =
     (case allocateItems items (t_amount (snd match)) of
        None \<Rightarrow> None
      | Some (matchItems, items') \<Rightarrow>
          matchesLoop rest amazonOrder items'
            (st\<lparr>v_giftCards :=
                   v_giftCards st @
                   map (\<lambda>item. \<lparr>g_orderId = o_orderId amazonOrder, g_amount = ji_amount item\<rparr>)
                     (filter (\<lambda>item. ji_description item
                                      = DESCRIPTION_PREFIX @ GIFT_CARD_DESCRIPTION)
                        matchItems),
                 v_joinedRecords :=
                   v_joinedRecords st @ [makeRecord amazonOrder (snd match) matchItems],
                 v_mintTransactions := removeItem (v_mintTransactions st) match\<rparr>))"

section \<open>Joiner.joinOrders: the strategy passes\<close>

datatype matcher = ExactMatches | CombinationMatches | GiftCardMatches

text \<open>
  One call \<^verbatim>\<open>matcher(shipments, amount, amazonOrder, amazonReturns, mintTransactions)\<close>:
  the matches, with the shipment group and the returns array as the call leaves them.
\<close>

fun runMatcher ::
  "matcher \<Rightarrow> Shipment obj list \<Rightarrow> rat \<Rightarrow> (Shipment obj) Order \<Rightarrow> Return obj list
   \<Rightarrow> Transaction obj list
   \<Rightarrow> (Transaction obj list \<times> Shipment obj list \<times> Return obj list) option" where
  "runMatcher ExactMatches shipments amount amazonOrder amazonReturns mintTransactions =
     Some (getExactMatches shipments amount amazonOrder amazonReturns mintTransactions,
           shipments, amazonReturns)"
| "runMatcher CombinationMatches shipments amount amazonOrder amazonReturns mintTransactions =
     (case getCombinationMatches shipments amount amazonOrder amazonReturns mintTransactions of
        None \<Rightarrow> None
      | Some matches \<Rightarrow> Some (matches, shipments, amazonReturns))"
| "runMatcher GiftCardMatches shipments amount amazonOrder amazonReturns mintTransactions =
     getGiftCardMatches shipments amount amazonOrder amazonReturns mintTransactions"

text \<open>A write to an object is seen through the array that holds the object.\<close>

definition updateObj :: "'a obj list \<Rightarrow> 'a obj \<Rightarrow> 'a obj list" where
  "updateObj array object = map (\<lambda>x. if fst x = fst object then object else x) array"

text \<open>
  The body of \<^verbatim>\<open>if (matches.length > 0)\<close> for the group \<open>shipments\<close>, which the
  strategy left as \<open>shipments'\<close>: the records of the matches are pushed, the shipments of
  the group are removed from the order, and the order is removed from \<^verbatim>\<open>amazonOrders\<close>,
  with \<^verbatim>\<open>i--\<close>, when it has no shipment left. It returns \<open>i\<close>, the order and the state.
\<close>

definition joinGroup ::
  "int \<Rightarrow> (Shipment obj) Order obj \<Rightarrow> Shipment obj list \<Rightarrow> Transaction obj list
   \<Rightarrow> Shipment obj list \<Rightarrow> State \<Rightarrow> (int \<times> (Shipment obj) Order obj \<times> State) option" where
  "joinGroup i amazonOrder shipments matches shipments' st =
     (case matchesLoop matches (snd amazonOrder) (flattenItems shipments') st of
        None \<Rightarrow> None
      | Some (items', st') \<Rightarrow>
          (let amazonOrder' =
                 (fst amazonOrder,
                  (snd amazonOrder)\<lparr>o_shipments :=
                     foldl removeItem (o_shipments (snd amazonOrder)) shipments\<rparr>);
               st'' = st'\<lparr>v_amazonOrders := updateObj (v_amazonOrders st') amazonOrder'\<rparr>
           in if length (o_shipments (snd amazonOrder')) = 0
              then Some (i - 1, amazonOrder',
                         st''\<lparr>v_amazonOrders := removeItem (v_amazonOrders st'') amazonOrder'\<rparr>)
              else Some (i, amazonOrder', st'')))"

text \<open>
  The loop \<^verbatim>\<open>for (const shipments of shipmentCombinations)\<close>. \<^term>\<open>Some None\<close>: no group
  matched and \<^verbatim>\<open>dirty\<close> stays false. \<^term>\<open>Some (Some (i, amazonOrder, st))\<close>: a group
  matched, \<^verbatim>\<open>dirty\<close> is true and the loop was left by \<^verbatim>\<open>break\<close>. A strategy writes
  to the group only when it returns a match, so the groups still to come are as
  \<^verbatim>\<open>combinations\<close> built them.
\<close>

fun scanShipments ::
  "matcher \<Rightarrow> int \<Rightarrow> (Shipment obj) Order obj \<Rightarrow> Shipment obj list list \<Rightarrow> State
   \<Rightarrow> (int \<times> (Shipment obj) Order obj \<times> State) option option" where
  "scanShipments matcher i amazonOrder [] st = Some None"
| "scanShipments matcher i amazonOrder (shipments # rest) st =
     (case runMatcher matcher shipments (getTotalAmount (map (\<lambda>s. s_amount (snd s)) shipments))
             (snd amazonOrder) (v_amazonReturns st) (v_mintTransactions st) of
        None \<Rightarrow> None
      | Some (matches, shipments', amazonReturns') \<Rightarrow>
          if length matches > 0
          then (case joinGroup i amazonOrder shipments matches shipments'
                       (st\<lparr>v_amazonReturns := amazonReturns'\<rparr>) of
                  None \<Rightarrow> None
                | Some r \<Rightarrow> Some (Some r))
          else scanShipments matcher i amazonOrder rest (st\<lparr>v_amazonReturns := amazonReturns'\<rparr>))"

subsection \<open>What \<^const>\<open>combinations\<close> returns, and why the loops end\<close>

lemma sint_shl1: "n mod 32 \<le> 30 \<Longrightarrow> sint (shl1 n) = 2 ^ (n mod 32)"
proof -
  assume n: "n mod 32 \<le> 30"
  let ?k = "n mod 32"
  have "(2::int) ^ ?k \<le> 2 ^ 30" using n by (intro power_increasing) auto
  then have lt: "(2::int) ^ ?k < 2 ^ 31" by simp
  have "shl1 n = (word_of_int (2 ^ ?k) :: 32 word)"
    by (simp add: shl1_def push_bit_eq_mult)
  moreover have "sint (word_of_int (2 ^ ?k) :: 32 word) = signed_take_bit 31 ((2::int) ^ ?k)"
    by (simp only: sint_sbintrunc') simp
  ultimately have "sint (shl1 n) = signed_take_bit 31 ((2::int) ^ ?k)"
    by simp
  also have "\<dots> = 2 ^ ?k"
  proof (rule signed_take_bit_int_eq_self)
    have "(0::int) \<le> 2 ^ ?k" by simp
    moreover have "- ((2::int) ^ 31) \<le> 0" by simp
    ultimately show "- (2 ^ 31) \<le> (2::int) ^ ?k" by (rule order_trans[rotated])
    show "(2::int) ^ ?k < 2 ^ 31" by (rule lt)
  qed
  finally show ?thesis .
qed

lemma sint_shl1_31: "n mod 32 = 31 \<Longrightarrow> sint (shl1 n) = - (2 ^ 31)"
  by (simp add: shl1_def)

lemma bit_test: "j < 32 \<Longrightarrow> ((word_of_nat m :: 32 word) AND shl1 j \<noteq> 0) = bit m j"
  unfolding shl1_def
  by (simp add: push_bit_eq_mult and_exp_eq_0_iff_not_bit bit_of_nat_iff)

lemma nat_bit_below: 
  assumes "0 < m" "m < 2 ^ k"
  shows "\<exists>j < k. bit (m::nat) j"
proof -
  from assms(1) have "m \<noteq> 0" by simp
  then obtain j where j: "bit m j" by (auto simp: bit_eq_iff)
  have "j < k"
  proof (rule ccontr)
    assume "\<not> j < k"
    then have "(2::nat) ^ k \<le> 2 ^ j" by (intro power_increasing) auto
    then have "m < 2 ^ j" using assms(2) by linarith
    then have "m div 2 ^ j = 0" by simp
    then show False using j by (simp only: bit_iff_odd) simp
  qed
  with j show ?thesis by blast
qed

lemma combinations_Some:
  assumes "combinations xs = Some cs"
  shows "length xs mod 32 \<le> 30 \<and> cs = map (maskFilter xs) [0..<2 ^ (length xs mod 32) - 1]"
proof -
  let ?k = "length xs mod 32"
  have k31: "?k \<le> 31" by (simp add: Suc_leI less_Suc_eq_le)
  have ne: "?k \<noteq> 31"
  proof
    assume "?k = 31"
    then have "sint (shl1 (length xs)) - 1 < 0" by (simp add: sint_shl1_31)
    then show False using assms by (simp add: combinations_def Let_def)
  qed
  with k31 have k: "?k \<le> 30" by linarith
  have ge1: "(1::int) \<le> 2 ^ ?k" by (rule one_le_power) simp
  have natlen: "nat ((2::int) ^ ?k - 1) = 2 ^ ?k - 1"
    by (simp add: nat_diff_distrib nat_power_eq)
  have nn: "\<not> ((2::int) ^ ?k - 1 < 0)" using ge1 by linarith
  have eq: "sint (shl1 (length xs)) - 1 = 2 ^ ?k - 1" using k by (simp add: sint_shl1)
  have "combinations xs = Some (map (maskFilter xs) [0..<2 ^ ?k - 1])"
    unfolding combinations_def Let_def eq
    by (simp only: nn if_False natlen)
  with assms k show ?thesis by simp
qed

lemma combinations_member:
  assumes "combinations xs = Some cs" "c \<in> set cs"
  shows "c \<noteq> [] \<and> set c \<subseteq> set xs"
proof -
  let ?k = "length xs mod 32"
  from combinations_Some[OF assms(1)] have k: "?k \<le> 30"
    and cs: "cs = map (maskFilter xs) [0..<2 ^ ?k - 1]" by simp_all
  from assms(2) cs obtain i where i: "i < 2 ^ ?k - 1" and c: "c = maskFilter xs i" by auto
  have sub: "set c \<subseteq> set xs"
    unfolding c maskFilter_def by (auto dest: set_zip_leftD)
  have "0 < i + 1" "i + 1 < 2 ^ ?k" using i by simp_all
  from nat_bit_below[OF this] obtain j where j: "j < ?k" "bit (i + 1) j" by blast
  have jn: "j < length xs" using j(1) by (meson le_trans less_le_not_le mod_less_eq_dividend not_le_imp_less)
  have j32: "j < 32" using j(1) k by simp
  have "(xs ! j, j) \<in> set (zip xs [0..<length xs])"
    using jn by (auto simp: set_zip)
  moreover have "(word_of_nat (i + 1) :: 32 word) AND shl1 j \<noteq> 0"
    using bit_test[OF j32, of "i + 1"] j(2) by simp
  ultimately have "xs ! j \<in> set c"
    unfolding c maskFilter_def by force
  with sub show ?thesis by auto
qed

lemma length_removeItem_le: "length (removeItem xs x) \<le> length xs"
  by (induction xs) auto

lemma length_removeItem_mem:
  "fst x \<in> fst ` set xs \<Longrightarrow> length (removeItem xs x) < length xs"
  by (induction xs) auto

lemma length_foldl_removeItem_le: "length (foldl removeItem xs c) \<le> length xs"
proof (induction c arbitrary: xs)
  case Nil
  show ?case by simp
next
  case (Cons a c)
  have "length (foldl removeItem (removeItem xs a) c) \<le> length (removeItem xs a)"
    by (rule Cons.IH)
  also have "\<dots> \<le> length xs" by (rule length_removeItem_le)
  finally show ?case by simp
qed

lemma length_foldl_removeItem_less:
  assumes "c \<noteq> []" "set c \<subseteq> set xs"
  shows "length (foldl removeItem xs c) < length xs"
proof -
  from assms(1) obtain a c' where c: "c = a # c'" by (cases c) auto
  with assms(2) have "fst a \<in> fst ` set xs" by auto
  then have "length (removeItem xs a) < length xs" by (rule length_removeItem_mem)
  moreover have "length (foldl removeItem (removeItem xs a) c') \<le> length (removeItem xs a)"
    by (rule length_foldl_removeItem_le)
  ultimately show ?thesis unfolding c by simp
qed

lemma pushItems_Some:
  "pushItems shipments new = Some shipments' \<Longrightarrow>
     shipments \<noteq> [] \<and> map fst shipments' = map fst shipments"
  by (auto simp: pushItems_def split: list.splits)

lemma runMatcher_nomatch:
  assumes "runMatcher matcher shipments amount amazonOrder amazonReturns mintTransactions
             = Some ([], shipments', amazonReturns')"
  shows "shipments' = shipments \<and> amazonReturns' = amazonReturns"
proof (cases matcher)
  case ExactMatches
  with assms show ?thesis by simp
next
  case CombinationMatches
  with assms show ?thesis by (simp split: option.splits)
next
  case GiftCardMatches
  with assms show ?thesis
    by (simp add: getGiftCardMatches_def Let_def split: if_splits list.splits option.splits)
qed

text \<open>A scan that ends with a match ran \<^const>\<open>joinGroup\<close> once, on the state it started from.\<close>

lemma scanShipments_Some:
  assumes "scanShipments matcher i amazonOrder groups st = Some (Some r)"
  shows "\<exists>g matches shipments' amazonReturns'.
           g \<in> set groups \<and>
           runMatcher matcher g (getTotalAmount (map (\<lambda>s. s_amount (snd s)) g))
             (snd amazonOrder) (v_amazonReturns st) (v_mintTransactions st)
             = Some (matches, shipments', amazonReturns') \<and>
           matches \<noteq> [] \<and>
           joinGroup i amazonOrder g matches shipments' (st\<lparr>v_amazonReturns := amazonReturns'\<rparr>)
             = Some r"
  using assms
proof (induction groups)
  case Nil
  then show ?case by simp
next
  case (Cons g groups)
  from Cons.prems obtain matches shipments' amazonReturns' where
    m: "runMatcher matcher g (getTotalAmount (map (\<lambda>s. s_amount (snd s)) g))
          (snd amazonOrder) (v_amazonReturns st) (v_mintTransactions st)
          = Some (matches, shipments', amazonReturns')"
    by (auto split: option.splits)
  show ?case
  proof (cases "matches = []")
    case True
    with m runMatcher_nomatch have "amazonReturns' = v_amazonReturns st" by blast
    with Cons.prems m True have "scanShipments matcher i amazonOrder groups st = Some (Some r)"
      by simp
    from Cons.IH[OF this] show ?thesis by auto
  next
    case False
    with Cons.prems m have
      "joinGroup i amazonOrder g matches shipments' (st\<lparr>v_amazonReturns := amazonReturns'\<rparr>)
         = Some r"
      by (auto split: option.splits)
    with m False show ?thesis by auto
  qed
qed

lemma matchesLoop_frame:
  "matchesLoop matches amazonOrder items st = Some (items', st') \<Longrightarrow>
     v_amazonOrders st' = v_amazonOrders st \<and> v_amazonReturns st' = v_amazonReturns st"
proof (induction matches arbitrary: items st)
  case Nil
  then show ?case by simp
next
  case (Cons match rest)
  then show ?case by (auto split: option.splits prod.splits)
qed

lemma length_updateObj [simp]: "length (updateObj array object) = length array"
  by (simp add: updateObj_def)

lemma fst_set_updateObj [simp]: "fst ` set (updateObj array object) = fst ` set array"
  by (auto simp: updateObj_def image_iff split: if_splits) force+

lemma length_removeItem_Suc:
  "fst x \<in> fst ` set xs \<Longrightarrow> Suc (length (removeItem xs x)) = length xs"
  by (induction xs) auto

text \<open>What \<^const>\<open>joinGroup\<close> does to the order, to \<open>i\<close> and to the array of the orders.\<close>

lemma joinGroup_order:
  assumes "joinGroup i amazonOrder g matches shipments' st = Some (i', amazonOrder', st')"
  shows "amazonOrder' =
           (fst amazonOrder,
            (snd amazonOrder)\<lparr>o_shipments := foldl removeItem (o_shipments (snd amazonOrder)) g\<rparr>)"
  using assms by (auto simp: joinGroup_def Let_def split: option.splits if_splits)

lemma joinGroup_index:
  assumes "joinGroup i amazonOrder g matches shipments' st = Some (i', amazonOrder', st')"
    and "fst amazonOrder \<in> fst ` set (v_amazonOrders st)"
  shows "if o_shipments (snd amazonOrder') = []
         then i' = i - 1 \<and> Suc (length (v_amazonOrders st')) = length (v_amazonOrders st)
         else i' = i \<and> length (v_amazonOrders st') = length (v_amazonOrders st)
              \<and> fst amazonOrder' \<in> fst ` set (v_amazonOrders st')"
proof -
  from assms(1) obtain items2 st2 where
    m: "matchesLoop matches (snd amazonOrder) (flattenItems shipments') st = Some (items2, st2)"
    by (auto simp: joinGroup_def split: option.splits)
  from matchesLoop_frame[OF m] have fr: "v_amazonOrders st2 = v_amazonOrders st" by simp
  let ?o1 = "(fst amazonOrder,
              (snd amazonOrder)\<lparr>o_shipments := foldl removeItem (o_shipments (snd amazonOrder)) g\<rparr>)"
  let ?st3 = "st2\<lparr>v_amazonOrders := updateObj (v_amazonOrders st2) ?o1\<rparr>"
  have o1: "amazonOrder' = ?o1" using assms(1) by (rule joinGroup_order)
  have mem: "fst ?o1 \<in> fst ` set (v_amazonOrders ?st3)"
    using assms(2) fr by simp
  have len3: "length (v_amazonOrders ?st3) = length (v_amazonOrders st)"
    using fr by simp
  show ?thesis
  proof (cases "foldl removeItem (o_shipments (snd amazonOrder)) g = []")
    case True
    with assms(1) m have
      res: "i' = i - 1" "st' = ?st3\<lparr>v_amazonOrders := removeItem (v_amazonOrders ?st3) ?o1\<rparr>"
      by (auto simp: joinGroup_def Let_def)
    have "Suc (length (removeItem (v_amazonOrders ?st3) ?o1)) = length (v_amazonOrders ?st3)"
      using mem by (rule length_removeItem_Suc)
    with res len3 True o1 show ?thesis by simp
  next
    case False
    with assms(1) m have res: "i' = i" "st' = ?st3"
      by (auto simp: joinGroup_def Let_def)
    with mem len3 False o1 show ?thesis by simp
  qed
qed

lemma dirtyLoop_measure:
  assumes "combinations (o_shipments (snd amazonOrder)) = Some shipmentCombinations"
    and "scanShipments matcher i amazonOrder (rev shipmentCombinations) st
           = Some (Some (i', amazonOrder', st'))"
  shows "length (o_shipments (snd amazonOrder')) < length (o_shipments (snd amazonOrder))"
proof -
  from scanShipments_Some[OF assms(2)] obtain g matches shipments' amazonReturns' where
    g: "g \<in> set shipmentCombinations"
    and j: "joinGroup i amazonOrder g matches shipments' (st\<lparr>v_amazonReturns := amazonReturns'\<rparr>)
              = Some (i', amazonOrder', st')"
    by auto
  from combinations_member[OF assms(1) g] have "g \<noteq> []" "set g \<subseteq> set (o_shipments (snd amazonOrder))"
    by simp_all
  then have "length (foldl removeItem (o_shipments (snd amazonOrder)) g)
               < length (o_shipments (snd amazonOrder))"
    by (rule length_foldl_removeItem_less)
  then show ?thesis unfolding joinGroup_order[OF j] by simp
qed

text \<open>
  The loop \<^verbatim>\<open>while (dirty)\<close> for one order: it returns the value of \<open>i\<close> and the
  state when a scan of all groups finds no match.
\<close>

function dirtyLoop ::
  "matcher \<Rightarrow> int \<Rightarrow> (Shipment obj) Order obj \<Rightarrow> State \<Rightarrow> (int \<times> State) option" where
  "dirtyLoop matcher i amazonOrder st =
     (case combinations (o_shipments (snd amazonOrder)) of
        None \<Rightarrow> None
      | Some shipmentCombinations \<Rightarrow>
          (case scanShipments matcher i amazonOrder (rev shipmentCombinations) st of
             None \<Rightarrow> None
           | Some None \<Rightarrow> Some (i, st)
           | Some (Some (i', amazonOrder', st')) \<Rightarrow> dirtyLoop matcher i' amazonOrder' st'))"
  by pat_completeness auto
termination
  by (relation "measure (\<lambda>(matcher, i, amazonOrder, st). length (o_shipments (snd amazonOrder)))")
     (auto dest: dirtyLoop_measure)

declare dirtyLoop.simps [simp del]

lemma combinations_Nil [simp]: "combinations [] = Some []"
  by (simp add: combinations_def shl1_def)

lemma dirtyLoop_Nil:
  "o_shipments (snd amazonOrder) = [] \<Longrightarrow> dirtyLoop matcher i amazonOrder st = Some (i, st)"
  by (subst dirtyLoop.simps) simp

text \<open>The cases of one round of the \<^verbatim>\<open>while\<close> loop that returns.\<close>

lemma dirtyLoop_cases:
  assumes "dirtyLoop matcher i amazonOrder st = Some (i', st')"
  obtains (stop) cs where
      "combinations (o_shipments (snd amazonOrder)) = Some cs"
      "scanShipments matcher i amazonOrder (rev cs) st = Some None"
      "i' = i" "st' = st"
    | (again) cs i1 amazonOrder1 st1 where
      "combinations (o_shipments (snd amazonOrder)) = Some cs"
      "scanShipments matcher i amazonOrder (rev cs) st = Some (Some (i1, amazonOrder1, st1))"
      "dirtyLoop matcher i1 amazonOrder1 st1 = Some (i', st')"
  using assms
  by (subst (asm) dirtyLoop.simps) (auto split: option.splits)

lemma dirtyLoop_index:
  assumes "dirtyLoop matcher i amazonOrder st = Some (i', st')"
    and "fst amazonOrder \<in> fst ` set (v_amazonOrders st)"
  shows "(i' = i \<and> length (v_amazonOrders st') = length (v_amazonOrders st)) \<or>
         (i' = i - 1 \<and> Suc (length (v_amazonOrders st')) = length (v_amazonOrders st))"
  using assms
proof (induction matcher i amazonOrder st rule: dirtyLoop.induct)
  case (1 matcher i amazonOrder st)
  from "1.prems"(1) show ?case
  proof (cases rule: dirtyLoop_cases)
    case (stop cs)
    then show ?thesis by simp
  next
    case (again cs i1 amazonOrder1 st1)
    from scanShipments_Some[OF again(2)] obtain g matches shipments' amazonReturns' where
      j: "joinGroup i amazonOrder g matches shipments' (st\<lparr>v_amazonReturns := amazonReturns'\<rparr>)
            = Some (i1, amazonOrder1, st1)"
      by auto
    have "fst amazonOrder \<in> fst ` set (v_amazonOrders (st\<lparr>v_amazonReturns := amazonReturns'\<rparr>))"
      using "1.prems"(2) by simp
    note idx = joinGroup_index[OF j this]
    show ?thesis
    proof (cases "o_shipments (snd amazonOrder1) = []")
      case True
      with again(3) have "i' = i1" "st' = st1" by (simp_all add: dirtyLoop_Nil)
      with idx True show ?thesis by simp
    next
      case False
      with idx have "fst amazonOrder1 \<in> fst ` set (v_amazonOrders st1)" by simp
      from "1.IH"[OF again(1,2) refl refl refl again(3) this] idx False
      show ?thesis by auto
    qed
  qed
qed

lemma ordersLoop_measure:
  assumes "i < int (length (v_amazonOrders st))" "\<not> i < 0"
    and "dirtyLoop matcher i (v_amazonOrders st ! nat i) st = Some (i', st')"
  shows "nat (int (length (v_amazonOrders st')) - (i' + 1))
           < nat (int (length (v_amazonOrders st)) - i)"
proof -
  have "nat i < length (v_amazonOrders st)" using assms(1,2) by simp
  then have "fst (v_amazonOrders st ! nat i) \<in> fst ` set (v_amazonOrders st)" by simp
  from dirtyLoop_index[OF assms(3) this] assms(1,2) show ?thesis by auto
qed

text \<open>
  The loop \<^verbatim>\<open>for (let i = 0; i < amazonOrders.length; i++)\<close> of one strategy.
  \<^verbatim>\<open>amazonOrders[i]\<close> at a negative index is \<^verbatim>\<open>undefined\<close>, and reading its
  \<^verbatim>\<open>shipments\<close> throws.
\<close>

function ordersLoop :: "matcher \<Rightarrow> int \<Rightarrow> State \<Rightarrow> State option" where
  "ordersLoop matcher i st =
     (if i < int (length (v_amazonOrders st))
      then (if i < 0 then None
            else (case dirtyLoop matcher i (v_amazonOrders st ! nat i) st of
                    None \<Rightarrow> None
                  | Some (i', st') \<Rightarrow> ordersLoop matcher (i' + 1) st'))
      else Some st)"
  by pat_completeness auto
termination
  by (relation "measure (\<lambda>(matcher, i, st). nat (int (length (v_amazonOrders st)) - i))")
     (auto dest: ordersLoop_measure)

declare ordersLoop.simps [simp del]

text \<open>\<^verbatim>\<open>for (const matcher of [getExactMatches, getCombinationMatches, getGiftCardMatches])\<close>.\<close>

fun matchersLoop :: "matcher list \<Rightarrow> State \<Rightarrow> State option" where
  "matchersLoop [] st = Some st"
| "matchersLoop (matcher # rest) st =
     (case ordersLoop matcher 0 st of
        None \<Rightarrow> None
      | Some st' \<Rightarrow> matchersLoop rest st')"

section \<open>Joiner.joinOrders: the pass over the returns\<close>

text \<open>
  The loop \<^verbatim>\<open>for (const transaction of mintTransactions)\<close> up to its \<^verbatim>\<open>break\<close>: the
  first transaction that qualifies, with the gift card that \<^verbatim>\<open>giftCards.find\<close> gave.
\<close>

fun scanTransactions ::
  "Return \<Rightarrow> GiftCard list \<Rightarrow> Transaction obj list \<Rightarrow> (Transaction obj \<times> GiftCard option) option"
  where
  "scanTransactions amazonReturn giftCards [] = None"
| "scanTransactions amazonReturn giftCards (transaction # rest) =
     (let giftCard = List.find (\<lambda>giftCard. amountsMatch (t_amount (snd transaction))
                                   (r_amount amazonReturn - g_amount giftCard)) giftCards
      in if giftCard \<noteq> None \<or> amountsMatch (t_amount (snd transaction)) (r_amount amazonReturn)
         then Some (transaction, giftCard)
         else scanTransactions amazonReturn giftCards rest)"

definition makeReturnRecord :: "Return \<Rightarrow> Transaction \<Rightarrow> GiftCard option \<Rightarrow> JoinedRecord" where
  "makeReturnRecord amazonReturn transaction giftCard =
     (let joinedRecord = \<lparr>j_mintTransactionId = t_id transaction,
                           j_orderId = r_orderId amazonReturn,
                           j_orderDate = r_returnDate amazonReturn,
                           j_amount = t_amount transaction,
                           j_items =
                             map (\<lambda>item. \<lparr>ji_trackingId = ''none'',
                                          ji_description = DESCRIPTION_PREFIX @ i_description item,
                                          ji_amount = - i_amount item\<rparr>)
                               (r_items amazonReturn) @
                             (case giftCard of
                                None \<Rightarrow> []
                              | Some giftCard \<Rightarrow>
                                  [\<lparr>ji_trackingId = ''none'',
                                    ji_description = DESCRIPTION_PREFIX @ GIFT_CARD_DESCRIPTION,
                                    ji_amount = - g_amount giftCard\<rparr>]),
                           j_isUnmodified = False\<rparr>
      in joinedRecord\<lparr>j_isUnmodified := transactionMatches joinedRecord transaction\<rparr>)"

lemma returnsLoop_measure:
  assumes "i < length xs"
  shows "length (removeItem xs (xs ! i)) - i < length xs - i"
proof -
  have "fst (xs ! i) \<in> fst ` set xs" using assms by simp
  then have "Suc (length (removeItem xs (xs ! i))) = length xs" by (rule length_removeItem_Suc)
  with assms show ?thesis by linarith
qed

text \<open>
  The loop \<^verbatim>\<open>for (let i = 0; i < amazonReturns.length; i++)\<close>. After a match the source
  runs \<^verbatim>\<open>i--\<close>, leaves the inner loop and runs \<^verbatim>\<open>i++\<close>: the index stays.
\<close>

function returnsLoop :: "nat \<Rightarrow> State \<Rightarrow> State" where
  "returnsLoop i st =
     (if i < length (v_amazonReturns st)
      then (let amazonReturn = v_amazonReturns st ! i in
            case scanTransactions (snd amazonReturn) (v_giftCards st) (v_mintTransactions st) of
              None \<Rightarrow> returnsLoop (i + 1) st
            | Some (transaction, giftCard) \<Rightarrow>
                returnsLoop i
                  (st\<lparr>v_joinedRecords :=
                         v_joinedRecords st @
                         [makeReturnRecord (snd amazonReturn) (snd transaction) giftCard],
                       v_mintTransactions := removeItem (v_mintTransactions st) transaction,
                       v_amazonReturns := removeItem (v_amazonReturns st) amazonReturn\<rparr>))
      else st)"
  by pat_completeness auto
termination
  by (relation "measure (\<lambda>(i, st). length (v_amazonReturns st) - i)")
     (auto simp: returnsLoop_measure)

declare returnsLoop.simps [simp del]

section \<open>Joiner.joinOrders\<close>

text \<open>\<^verbatim>\<open>cloneDeep(amazonOrders)\<close>: fresh order objects holding fresh shipment objects.\<close>

definition cloneOrders :: "Shipment Order list \<Rightarrow> (Shipment obj) Order obj list" where
  "cloneOrders amazonOrders =
     enumerate 0
       (map (\<lambda>order. \<lparr>o_orderId = o_orderId order,
                      o_orderDate = o_orderDate order,
                      o_usedGiftCard = o_usedGiftCard order,
                      o_shipments = enumerate 0 (o_shipments order)\<rparr>)
          amazonOrders)"

definition plainOrder :: "(Shipment obj) Order \<Rightarrow> Shipment Order" where
  "plainOrder order =
     \<lparr>o_orderId = o_orderId order,
      o_orderDate = o_orderDate order,
      o_usedGiftCard = o_usedGiftCard order,
      o_shipments = map snd (o_shipments order)\<rparr>"

text \<open>
  Lines 321 to 408: the copies of the transactions and of the orders, the sort of the
  orders by total from largest to smallest, and the three strategy passes. Up to here
  \<^verbatim>\<open>amazonReturns\<close> is the caller's own array, holding the caller's own objects.
\<close>

definition matchPasses :: "Transaction list \<Rightarrow> Shipment Order list \<Rightarrow> Return list \<Rightarrow> State option"
  where
  "matchPasses mintTransactions amazonOrders amazonReturns =
     matchersLoop [ExactMatches, CombinationMatches, GiftCardMatches]
       \<lparr>v_mintTransactions = enumerate 0 mintTransactions,
        v_amazonOrders =
          sort_key (\<lambda>order. - getTotalAmount (map (\<lambda>s. s_amount (snd s)) (o_shipments (snd order))))
            (cloneOrders amazonOrders),
        v_amazonReturns = enumerate 0 amazonReturns,
        v_joinedRecords = [],
        v_giftCards = []\<rparr>"

text \<open>The caller's \<^verbatim>\<open>amazonReturns\<close> array as the call leaves it.\<close>

definition callerAmazonReturns ::
  "Transaction list \<Rightarrow> Shipment Order list \<Rightarrow> Return list \<Rightarrow> Return list option" where
  "callerAmazonReturns mintTransactions amazonOrders amazonReturns =
     (case matchPasses mintTransactions amazonOrders amazonReturns of
        None \<Rightarrow> None
      | Some st \<Rightarrow> Some (map snd (v_amazonReturns st)))"

text \<open>
  Line 410 copies the returns, which gives fresh objects, and the pass over the returns
  runs on the copy.
\<close>

definition finalState :: "State \<Rightarrow> State" where
  "finalState st = returnsLoop 0 (st\<lparr>v_amazonReturns := enumerate 0 (map snd (v_amazonReturns st))\<rparr>)"

definition joinOrders :: "Transaction list \<Rightarrow> Shipment Order list \<Rightarrow> Return list \<Rightarrow> Result option"
  where
  "joinOrders mintTransactions amazonOrders amazonReturns =
     (case matchPasses mintTransactions amazonOrders amazonReturns of
        None \<Rightarrow> None
      | Some st \<Rightarrow>
          (let st' = finalState st
           in Some \<lparr>res_joinedRecords = sort_key j_orderDate (v_joinedRecords st'),
                    res_remainingMintTransactions = map snd (v_mintTransactions st'),
                    res_remainingAmazonOrders = map (\<lambda>order. plainOrder (snd order)) (v_amazonOrders st'),
                    res_remainingAmazonReturns = map snd (v_amazonReturns st')\<rparr>))"

section \<open>A run is a sequence of steps\<close>

text \<open>
  One step of the strategy passes: for an order of \<^verbatim>\<open>amazonOrders\<close> and a group of its
  shipments, a strategy returned matches and \<^const>\<open>joinGroup\<close> ran.
\<close>

inductive groupStep :: "State \<Rightarrow> State \<Rightarrow> bool" where
  groupStepI:
    "\<lbrakk>amazonOrder \<in> set (v_amazonOrders st);
      combinations (o_shipments (snd amazonOrder)) = Some shipmentCombinations;
      shipments \<in> set shipmentCombinations;
      runMatcher matcher shipments (getTotalAmount (map (\<lambda>s. s_amount (snd s)) shipments))
        (snd amazonOrder) (v_amazonReturns st) (v_mintTransactions st)
        = Some (matches, shipments', amazonReturns');
      matches \<noteq> [];
      joinGroup i amazonOrder shipments matches shipments' (st\<lparr>v_amazonReturns := amazonReturns'\<rparr>)
        = Some (i', amazonOrder', st')\<rbrakk>
     \<Longrightarrow> groupStep st st'"

text \<open>One step of the pass over the returns: the return at \<open>i\<close> found a transaction.\<close>

inductive returnStep :: "State \<Rightarrow> State \<Rightarrow> bool" where
  returnStepI:
    "\<lbrakk>i < length (v_amazonReturns st);
      amazonReturn = v_amazonReturns st ! i;
      scanTransactions (snd amazonReturn) (v_giftCards st) (v_mintTransactions st)
        = Some (transaction, giftCard)\<rbrakk>
     \<Longrightarrow> returnStep st
           (st\<lparr>v_joinedRecords :=
                  v_joinedRecords st @
                  [makeReturnRecord (snd amazonReturn) (snd transaction) giftCard],
                v_mintTransactions := removeItem (v_mintTransactions st) transaction,
                v_amazonReturns := removeItem (v_amazonReturns st) amazonReturn\<rparr>)"

lemma mem_updateObj:
  "fst object \<in> fst ` set array \<Longrightarrow> object \<in> set (updateObj array object)"
  by (auto simp: updateObj_def image_iff)

lemma joinGroup_member:
  assumes "joinGroup i amazonOrder g matches shipments' st = Some (i', amazonOrder', st')"
    and "amazonOrder \<in> set (v_amazonOrders st)"
    and "o_shipments (snd amazonOrder') \<noteq> []"
  shows "amazonOrder' \<in> set (v_amazonOrders st')"
proof -
  from assms(1) obtain items2 st2 where
    m: "matchesLoop matches (snd amazonOrder) (flattenItems shipments') st = Some (items2, st2)"
    by (auto simp: joinGroup_def split: option.splits)
  from matchesLoop_frame[OF m] have fr: "v_amazonOrders st2 = v_amazonOrders st" by simp
  have o1: "amazonOrder' = (fst amazonOrder,
              (snd amazonOrder)\<lparr>o_shipments := foldl removeItem (o_shipments (snd amazonOrder)) g\<rparr>)"
    using assms(1) by (rule joinGroup_order)
  with assms(3) have ne: "foldl removeItem (o_shipments (snd amazonOrder)) g \<noteq> []" by simp
  with assms(1) m have "v_amazonOrders st' = updateObj (v_amazonOrders st2) amazonOrder'"
    unfolding o1 by (auto simp: joinGroup_def Let_def)
  moreover have "fst amazonOrder' \<in> fst ` set (v_amazonOrders st2)"
    using assms(2) fr o1 by (simp add: rev_image_eqI)
  ultimately show ?thesis by (simp add: mem_updateObj)
qed

lemma dirtyLoop_reach:
  assumes "dirtyLoop matcher i amazonOrder st = Some (i', st')"
    and "o_shipments (snd amazonOrder) \<noteq> [] \<Longrightarrow> amazonOrder \<in> set (v_amazonOrders st)"
  shows "groupStep\<^sup>*\<^sup>* st st'"
  using assms
proof (induction matcher i amazonOrder st rule: dirtyLoop.induct)
  case (1 matcher i amazonOrder st)
  from "1.prems"(1) show ?case
  proof (cases rule: dirtyLoop_cases)
    case (stop cs)
    then show ?thesis by simp
  next
    case (again cs i1 amazonOrder1 st1)
    from scanShipments_Some[OF again(2)] obtain g matches shipments' amazonReturns' where
      g: "g \<in> set cs"
      and m: "runMatcher matcher g (getTotalAmount (map (\<lambda>s. s_amount (snd s)) g))
                (snd amazonOrder) (v_amazonReturns st) (v_mintTransactions st)
                = Some (matches, shipments', amazonReturns')"
      and ne: "matches \<noteq> []"
      and j: "joinGroup i amazonOrder g matches shipments' (st\<lparr>v_amazonReturns := amazonReturns'\<rparr>)
            = Some (i1, amazonOrder1, st1)"
      by auto
    have "o_shipments (snd amazonOrder) \<noteq> []"
      using again(1) g by (cases "o_shipments (snd amazonOrder)") auto
    then have mem: "amazonOrder \<in> set (v_amazonOrders st)" by (rule "1.prems"(2))
    then have step: "groupStep st st1" using again(1) g m ne j by (rule groupStepI)
    have "o_shipments (snd amazonOrder1) \<noteq> [] \<Longrightarrow> amazonOrder1 \<in> set (v_amazonOrders st1)"
      using joinGroup_member[OF j] mem by simp
    from "1.IH"[OF again(1,2) refl refl refl again(3) this] have "groupStep\<^sup>*\<^sup>* st1 st'" .
    with step show ?thesis by (rule converse_rtranclp_into_rtranclp)
  qed
qed

lemma ordersLoop_cases:
  assumes "ordersLoop matcher i st = Some st'"
  obtains (stop) "\<not> i < int (length (v_amazonOrders st))" "st' = st"
    | (again) i1 st1 where
      "i < int (length (v_amazonOrders st))" "\<not> i < 0"
      "dirtyLoop matcher i (v_amazonOrders st ! nat i) st = Some (i1, st1)"
      "ordersLoop matcher (i1 + 1) st1 = Some st'"
  using assms
  by (subst (asm) ordersLoop.simps) (auto split: option.splits if_splits)

lemma ordersLoop_reach:
  "ordersLoop matcher i st = Some st' \<Longrightarrow> groupStep\<^sup>*\<^sup>* st st'"
proof (induction matcher i st rule: ordersLoop.induct)
  case (1 matcher i st)
  from "1.prems" show ?case
  proof (cases rule: ordersLoop_cases)
    case stop
    then show ?thesis by simp
  next
    case (again i1 st1)
    have "v_amazonOrders st ! nat i \<in> set (v_amazonOrders st)" using again(1,2) by simp
    with again(3) have r1: "groupStep\<^sup>*\<^sup>* st st1" by (rule dirtyLoop_reach)
    from "1.IH"[OF again(1,2,3) refl again(4)] have "groupStep\<^sup>*\<^sup>* st1 st'" .
    with r1 show ?thesis by (rule rtranclp_trans)
  qed
qed

lemma matchersLoop_reach:
  "matchersLoop matchers st = Some st' \<Longrightarrow> groupStep\<^sup>*\<^sup>* st st'"
proof (induction matchers arbitrary: st)
  case Nil
  then show ?case by simp
next
  case (Cons matcher rest)
  from Cons.prems obtain st1 where o: "ordersLoop matcher 0 st = Some st1"
    and r: "matchersLoop rest st1 = Some st'"
    by (auto split: option.splits)
  from ordersLoop_reach[OF o] Cons.IH[OF r] show ?case by (rule rtranclp_trans)
qed

lemma returnsLoop_reach: "returnStep\<^sup>*\<^sup>* st (returnsLoop i st)"
proof (induction i st rule: returnsLoop.induct)
  case (1 i st)
  show ?case
  proof (cases "i < length (v_amazonReturns st)")
    case False
    then have "returnsLoop i st = st" by (subst returnsLoop.simps) simp
    then show ?thesis by simp
  next
    case True
    let ?r = "v_amazonReturns st ! i"
    show ?thesis
    proof (cases "scanTransactions (snd ?r) (v_giftCards st) (v_mintTransactions st)")
      case None
      moreover have "returnsLoop i st = returnsLoop (i + 1) st"
        using True None by (subst returnsLoop.simps) (simp add: Let_def)
      ultimately show ?thesis using "1.IH"(1)[OF True refl None] by simp
    next
      case (Some p)
      obtain transaction giftCard where p: "p = (transaction, giftCard)" by (cases p) auto
      let ?st1 = "st\<lparr>v_joinedRecords :=
                  v_joinedRecords st @ [makeReturnRecord (snd ?r) (snd transaction) giftCard],
                v_mintTransactions := removeItem (v_mintTransactions st) transaction,
                v_amazonReturns := removeItem (v_amazonReturns st) ?r\<rparr>"
      have "returnStep st ?st1" using True refl Some[unfolded p] by (rule returnStepI)
      moreover have "returnStep\<^sup>*\<^sup>* ?st1 (returnsLoop i ?st1)"
        using "1.IH"(2)[OF True refl Some p[symmetric]] by simp
      moreover have "returnsLoop i st = returnsLoop i ?st1"
        using True Some p by (subst returnsLoop.simps) (simp add: Let_def)
      ultimately show ?thesis by (simp add: converse_rtranclp_into_rtranclp)
    qed
  qed
qed


section \<open>What a step does to the state\<close>

lemma set_removeItem: "set (removeItem xs x) \<subseteq> set xs"
  by (induction xs) auto

lemma set_foldl_removeItem: "set (foldl removeItem xs c) \<subseteq> set xs"
proof (induction c arbitrary: xs)
  case Nil
  show ?case by simp
next
  case (Cons a c)
  have "set (foldl removeItem (removeItem xs a) c) \<subseteq> set (removeItem xs a)" by (rule Cons.IH)
  also have "\<dots> \<subseteq> set xs" by (rule set_removeItem)
  finally show ?case by simp
qed

lemma exactScan_pool:
  "exactScan cs matchAmount matchItems items = (matchItems', items') \<Longrightarrow> set items' \<subseteq> set items"
proof (induction cs arbitrary: matchItems items)
  case Nil
  then show ?case by simp
next
  case (Cons c cs)
  show ?case
  proof (cases "amountsMatch (getTotalAmount (map (\<lambda>item. ji_amount (snd item)) c)) matchAmount")
    case True
    with Cons.prems have "exactScan cs matchAmount c (foldl removeItem items c) = (matchItems', items')"
      by simp
    from Cons.IH[OF this] set_foldl_removeItem[of items c] show ?thesis by blast
  next
    case False
    with Cons.prems Cons.IH show ?thesis by simp
  qed
qed

lemma splitItems_pool:
  "splitItems items remainingAmount matchItems = (matchItems', items', remainingAmount')
     \<Longrightarrow> set items' \<subseteq> set items"
proof (induction items arbitrary: remainingAmount matchItems)
  case Nil
  then show ?case by simp
next
  case (Cons item items)
  then show ?case by (auto split: if_splits)
qed

lemma allocateItems_pool:
  assumes "allocateItems items matchAmount = Some (matchItems, items')"
  shows "set items' \<subseteq> set items"
proof -
  from assms obtain cs where cs: "combinations items = Some cs"
    by (auto simp: allocateItems_def split: option.splits)
  obtain m1 i1 where e: "exactScan cs matchAmount [] items = (m1, i1)" by (cases "exactScan cs matchAmount [] items")
  from exactScan_pool[OF e] have s1: "set i1 \<subseteq> set items" .
  show ?thesis
  proof (cases "length m1 = 0")
    case False
    with assms cs e have "items' = i1" by (simp add: allocateItems_def)
    with s1 show ?thesis by simp
  next
    case True
    obtain m2 i2 r2 where sp: "splitItems i1 matchAmount [] = (m2, i2, r2)"
      by (cases "splitItems i1 matchAmount []") auto
    with assms cs e True have "items' = i2" by (simp add: allocateItems_def)
    with splitItems_pool[OF sp] s1 show ?thesis by blast
  qed
qed

lemma matchesLoop_effect:
  assumes "matchesLoop matches amazonOrder items st = Some (items', st')"
  shows "\<exists>allocs. length allocs = length matches \<and>
           v_joinedRecords st' = v_joinedRecords st @
              map (\<lambda>(match, a). makeRecord amazonOrder (snd match) a) (zip matches allocs) \<and>
           v_mintTransactions st' = foldl removeItem (v_mintTransactions st) matches \<and>
           (\<forall>k < length matches. \<exists>pool pool'. set pool \<subseteq> set items \<and>
               allocateItems pool (t_amount (snd (matches ! k))) = Some (allocs ! k, pool'))"
  using assms
proof (induction matches arbitrary: items st)
  case Nil
  then show ?case by simp
next
  case (Cons match rest)
  from Cons.prems obtain a items1 where
    al: "allocateItems items (t_amount (snd match)) = Some (a, items1)"
    by (auto split: option.splits)
  let ?st1 = "st\<lparr>v_giftCards :=
                   v_giftCards st @
                   map (\<lambda>item. \<lparr>g_orderId = o_orderId amazonOrder, g_amount = ji_amount item\<rparr>)
                     (filter (\<lambda>item. ji_description item
                                      = DESCRIPTION_PREFIX @ GIFT_CARD_DESCRIPTION)
                        a),
                 v_joinedRecords :=
                   v_joinedRecords st @ [makeRecord amazonOrder (snd match) a],
                 v_mintTransactions := removeItem (v_mintTransactions st) match\<rparr>"
  from Cons.prems al have r: "matchesLoop rest amazonOrder items1 ?st1 = Some (items', st')"
    by simp
  from Cons.IH[OF r] obtain allocs where
    len: "length allocs = length rest"
    and recs: "v_joinedRecords st' = v_joinedRecords ?st1 @
              map (\<lambda>(match, a). makeRecord amazonOrder (snd match) a) (zip rest allocs)"
    and pool: "v_mintTransactions st' = foldl removeItem (v_mintTransactions ?st1) rest"
    and al': "\<forall>k < length rest. \<exists>pool pool'. set pool \<subseteq> set items1 \<and>
               allocateItems pool (t_amount (snd (rest ! k))) = Some (allocs ! k, pool')"
    by blast
  from allocateItems_pool[OF al] have sub: "set items1 \<subseteq> set items" .
  have "\<forall>k < length (match # rest). \<exists>pool pool'. set pool \<subseteq> set items \<and>
               allocateItems pool (t_amount (snd ((match # rest) ! k))) = Some ((a # allocs) ! k, pool')"
  proof (intro allI impI)
    fix k assume k: "k < length (match # rest)"
    show "\<exists>pool pool'. set pool \<subseteq> set items \<and>
               allocateItems pool (t_amount (snd ((match # rest) ! k))) = Some ((a # allocs) ! k, pool')"
    proof (cases k)
      case 0
      with al show ?thesis by auto
    next
      case (Suc k')
      with k have "k' < length rest" by simp
      with al' obtain pool pool' where "set pool \<subseteq> set items1"
        "allocateItems pool (t_amount (snd (rest ! k'))) = Some (allocs ! k', pool')" by blast
      with sub Suc show ?thesis by auto
    qed
  qed
  with len recs pool show ?case
    by (intro exI[of _ "a # allocs"]) simp
qed


section \<open>The subset generator\<close>

lemma maskFilter_nths:
  assumes "length xs \<le> 32"
  shows "maskFilter xs i = nths xs {j. bit (i + 1) j}"
proof -
  have "filter (\<lambda>(e2, j). (word_of_nat (i + 1) AND shl1 j) \<noteq> 0) (zip xs [0..<length xs])
      = filter (\<lambda>p. snd p \<in> {j. bit (i + 1) j}) (zip xs [0..<length xs])"
  proof (rule filter_cong[OF refl])
    fix p assume "p \<in> set (zip xs [0..<length xs])"
    moreover obtain a b where p: "p = (a, b)" by (cases p)
    ultimately have "snd p \<in> set [0..<length xs]" by (auto dest: set_zip_rightD)
    then have "snd p < 32" using assms by simp
    then show "(case p of (e2, j) \<Rightarrow> (word_of_nat (i + 1) AND shl1 j) \<noteq> 0)
                 = (snd p \<in> {j. bit (i + 1) j})"
      using p bit_test[of b "i + 1"] by simp
  qed
  then show ?thesis by (simp only: maskFilter_def nths_def)
qed

lemma combinations_small_eq:
  assumes "length xs \<le> 30"
  shows "combinations xs = Some (map (\<lambda>i. maskFilter xs i) [0..<2 ^ length xs - 1])"
proof -
  let ?n = "length xs"
  have m: "?n mod 32 = ?n" using assms by simp
  have ge1: "(1::int) \<le> 2 ^ ?n" by (rule one_le_power) simp
  have nn: "\<not> ((2::int) ^ ?n - 1 < 0)" using ge1 by linarith
  have natlen: "nat ((2::int) ^ ?n - 1) = 2 ^ ?n - 1"
    by (simp add: nat_diff_distrib nat_power_eq)
  have eq: "sint (shl1 ?n) - 1 = 2 ^ ?n - 1" using assms sint_shl1[of ?n] m by simp
  show ?thesis
    unfolding combinations_def Let_def eq by (simp only: nn if_False natlen)
qed

text \<open>
  C7, for lists of at most 30 elements. \<^const>\<open>combinations\<close> returns exactly
  \<open>2 ^ n - 1\<close> subsets; the subset at position \<open>i\<close> is the one of mask \<open>i + 1\<close>: it holds
  the elements whose index \<open>j\<close> is a set bit of \<open>i + 1\<close>, in the order of the input
  (\<^const>\<open>nths\<close>), so it is a subsequence of the input. For \<open>n = 0\<close> the length is \<open>0\<close>.
\<close>

theorem combinations_small:
  assumes "length xs \<le> 30"
  shows "\<exists>ys. combinations xs = Some ys \<and> length ys = 2 ^ length xs - 1 \<and>
           (\<forall>i < length ys. ys ! i = nths xs {j. bit (i + 1) j} \<and> subseq (ys ! i) xs)"
proof -
  let ?ys = "map (\<lambda>i. maskFilter xs i) [0..<2 ^ length xs - 1]"
  have le32: "length xs \<le> 32" using assms by simp
  have c: "combinations xs = Some ?ys" using assms by (rule combinations_small_eq)
  have len: "length ?ys = 2 ^ length xs - 1" by simp
  have "\<forall>i < length ?ys. ?ys ! i = nths xs {j. bit (i + 1) j} \<and> subseq (?ys ! i) xs"
  proof (intro allI impI)
    fix i assume "i < length ?ys"
    then have "?ys ! i = maskFilter xs i" by simp
    then have yi: "?ys ! i = nths xs {j. bit (i + 1) j}"
      using maskFilter_nths[OF le32] by simp
    have "subseq (?ys ! i) xs" unfolding yi subseq_conv_nths by blast
    with yi show "?ys ! i = nths xs {j. bit (i + 1) j} \<and> subseq (?ys ! i) xs" by simp
  qed
  with c len show ?thesis by blast
qed

theorem combinations_small_witness:
  "length [1::nat, 2, 3] \<le> 30 \<and>
   (\<exists>ys. combinations [1::nat, 2, 3] = Some ys \<and> length ys = 7)"
  using combinations_small[of "[1::nat, 2, 3]"] by auto

text \<open>
  A list of 32 elements: \<^verbatim>\<open>1 << 32\<close> is \<^verbatim>\<open>1\<close>, the array has length \<open>0\<close>, and no subset
  is returned where C7 says \<open>2 ^ 32 - 1\<close>.
\<close>

theorem combinations_32_counterexample:
  "combinations (replicate 32 (0::nat)) = Some [] \<and>
   length ([] :: nat list list) \<noteq> 2 ^ length (replicate 32 (0::nat)) - 1"
proof -
  have "combinations (replicate 32 (0::nat)) = Some []" by code_simp
  moreover have "length ([] :: nat list list) \<noteq> 2 ^ length (replicate 32 (0::nat)) - 1" by simp
  ultimately show ?thesis by simp
qed

section \<open>Concrete inputs\<close>

definition DAY :: int where
  "DAY = 24 * 60 * 60 * 1000"

text \<open>
  Scenario C of the specification: an order flagged \<^verbatim>\<open>usedGiftCard\<close> with one shipment
  of -55, and one debit of -40 two days after the order date.
\<close>

definition shipmentC :: Shipment where
  "shipmentC = \<lparr>s_trackingId = ''T1'', s_shipmentDate = 0, s_amount = - 55,
                 s_items = [\<lparr>i_description = ''Book'', i_amount = - 55\<rparr>]\<rparr>"

definition orderC :: "Shipment Order" where
  "orderC = \<lparr>o_orderId = ''O1'', o_orderDate = 0, o_usedGiftCard = True,
              o_shipments = [shipmentC]\<rparr>"

text \<open>The working copy of \<^const>\<open>orderC\<close>.\<close>

definition workingOrderC :: "(Shipment obj) Order" where
  "workingOrderC = \<lparr>o_orderId = ''O1'', o_orderDate = 0, o_usedGiftCard = True,
                     o_shipments = [(0, shipmentC)]\<rparr>"

definition transactionC :: Transaction where
  "transactionC = \<lparr>t_id = ''M1'', t_amount = - 40, t_date = 2 * DAY,
                    t_children = [\<lparr>c_description = ''AMZN Mktp'', c_amount = - 40\<rparr>]\<rparr>"

text \<open>A pending return of 15, the amount that the gift card covered in scenario C.\<close>

definition returnC :: Return where
  "returnC = \<lparr>r_orderId = ''O9'', r_returnDate = 5 * DAY, r_amount = 15,
               r_items = [\<lparr>i_description = ''Pen'', i_amount = - 15\<rparr>]\<rparr>"

text \<open>
  Scenarios A and D together: an order of -50 charged two days later, and a return of 25
  refunded by a credit of 25.
\<close>

definition orderA :: "Shipment Order" where
  "orderA = \<lparr>o_orderId = ''O1'', o_orderDate = 10 * DAY, o_usedGiftCard = False,
              o_shipments = [\<lparr>s_trackingId = ''T1'', s_shipmentDate = 10 * DAY, s_amount = - 50,
                 s_items = [\<lparr>i_description = ''Lamp'', i_amount = - 50\<rparr>]\<rparr>]\<rparr>"

definition transactionA :: Transaction where
  "transactionA = \<lparr>t_id = ''M1'', t_amount = - 50, t_date = 12 * DAY,
                    t_children = [\<lparr>c_description = ''Amazon - Lamp'', c_amount = - 50\<rparr>]\<rparr>"

definition returnD :: Return where
  "returnD = \<lparr>r_orderId = ''O7'', r_returnDate = 3 * DAY, r_amount = 25,
               r_items = [\<lparr>i_description = ''Mug'', i_amount = - 25\<rparr>]\<rparr>"

definition transactionD :: Transaction where
  "transactionD = \<lparr>t_id = ''M2'', t_amount = 25, t_date = 4 * DAY,
                    t_children = [\<lparr>c_description = ''AMZN refund'', c_amount = 25\<rparr>]\<rparr>"

definition resultAD :: Result where
  "resultAD =
     \<lparr>res_joinedRecords =
        [\<lparr>j_mintTransactionId = ''M2'', j_orderId = ''O7'', j_orderDate = 3 * DAY, j_amount = 25,
          j_items = [\<lparr>ji_trackingId = ''none'', ji_description = ''Amazon - Mug'',
                      ji_amount = 25\<rparr>],
          j_isUnmodified = False\<rparr>,
         \<lparr>j_mintTransactionId = ''M1'', j_orderId = ''O1'', j_orderDate = 10 * DAY,
          j_amount = - 50,
          j_items = [\<lparr>ji_trackingId = ''T1'', ji_description = ''Amazon - Lamp'',
                      ji_amount = - 50\<rparr>],
          j_isUnmodified = True\<rparr>],
      res_remainingMintTransactions = [],
      res_remainingAmazonOrders = [],
      res_remainingAmazonReturns = []\<rparr>"

lemma joinOrders_AD: "joinOrders [transactionA, transactionD] [orderA] [returnD] = Some resultAD"
  by code_simp

text \<open>
  An order of one shipment with the items A (-10), B (-10) and C (-5), paid by two debits
  of -10 and -15.
\<close>

definition itemsABC :: "Item list" where
  "itemsABC = [\<lparr>i_description = ''A'', i_amount = - 10\<rparr>,
               \<lparr>i_description = ''B'', i_amount = - 10\<rparr>,
               \<lparr>i_description = ''C'', i_amount = - 5\<rparr>]"

definition orderABC :: "Shipment Order" where
  "orderABC = \<lparr>o_orderId = ''O1'', o_orderDate = 0, o_usedGiftCard = False,
                o_shipments = [\<lparr>s_trackingId = ''T1'', s_shipmentDate = 0, s_amount = - 25,
                                 s_items = itemsABC\<rparr>]\<rparr>"

definition transaction10 :: Transaction where
  "transaction10 = \<lparr>t_id = ''M1'', t_amount = - 10, t_date = DAY,
                     t_children = [\<lparr>c_description = ''AMZN'', c_amount = - 10\<rparr>]\<rparr>"

definition transaction15 :: Transaction where
  "transaction15 = \<lparr>t_id = ''M2'', t_amount = - 15, t_date = 2 * DAY,
                     t_children = [\<lparr>c_description = ''AMZN'', c_amount = - 15\<rparr>]\<rparr>"

section \<open>The Gift-Card strategy\<close>

lemma floor_int_half: "\<lfloor>(of_int n :: rat) + 1 / 2\<rfloor> = n"
  by (rule floor_unique) simp_all

lemma toFixed2_grid: "toFixed2 (of_int n / 100) = of_int n / 100"
proof -
  have a: "(of_int n / 100 :: rat) * 100 + 1 / 2 = of_int n + 1 / 2" by simp
  have b: "- (of_int n / 100 :: rat) * 100 + 1 / 2 = of_int (- n) + 1 / 2" by simp
  show ?thesis unfolding toFixed2_def a b floor_int_half by simp
qed

lemma toFixed2_int: "toFixed2 (of_int n) = of_int n"
  using toFixed2_grid[of "n * 100"] by simp

lemma getTotalAmount_single_55 [simp]: "getTotalAmount [- 55] = - 55"
  using toFixed2_int[of "- 55"] by (simp add: getTotalAmount_def)

lemma combinations_single: "combinations [x] = Some [[x]]"
  by (simp add: combinations_def maskFilter_def shl1_def)

lemma sort_key_hd_min:
  fixes k :: "'a \<Rightarrow> 'b::linorder"
  assumes "sort_key k xs = t # rest"
  shows "t \<in> set xs \<and> (\<forall>u \<in> set xs. k t \<le> k u)"
proof -
  have "set (sort_key k xs) = set xs" by simp
  with assms have s: "set xs = insert t (set rest)" by simp
  have "sorted (map k (sort_key k xs))" by (rule sorted_sort_key)
  with assms have "\<forall>u \<in> set rest. k t \<le> k u" by simp
  with s show ?thesis by auto
qed

lemma getGiftCardMatches_Some:
  assumes "getGiftCardMatches shipments amount amazonOrder amazonReturns mintTransactions
             = Some (matches, shipments', amazonReturns')"
  shows "(\<not> o_usedGiftCard amazonOrder \<longrightarrow> matches = []) \<and>
         (\<forall>t \<in> set matches.
            matches = [t] \<and> t \<in> set mintTransactions \<and> t_amount (snd t) < 0 \<and>
            inRange (t_date (snd t)) (o_orderDate amazonOrder) \<and>
            amount < t_amount (snd t) \<and> \<bar>t_amount (snd t)\<bar> < \<bar>amount\<bar> \<and>
            (\<forall>u \<in> set mintTransactions.
               t_amount (snd u) < 0 \<and> inRange (t_date (snd u)) (o_orderDate amazonOrder) \<and>
               amount < t_amount (snd u)
               \<longrightarrow> \<bar>t_amount (snd t) - amount\<bar> \<le> \<bar>t_amount (snd u) - amount\<bar>))"
proof (cases "o_usedGiftCard amazonOrder")
  case False
  with assms show ?thesis by (simp add: getGiftCardMatches_def)
next
  case True
  let ?cands = "filter (\<lambda>mintTransaction. t_amount (snd mintTransaction) > amount)
                  (filter (\<lambda>mintTransaction. inRange (t_date (snd mintTransaction))
                                                    (o_orderDate amazonOrder))
                    (filter (\<lambda>mintTransaction. t_amount (snd mintTransaction) < 0)
                       mintTransactions))"
  let ?sorted = "sort_key (\<lambda>a. \<bar>t_amount (snd a) - amount\<bar>) ?cands"
  show ?thesis
  proof (cases ?sorted)
    case Nil
    with assms True show ?thesis by (simp add: getGiftCardMatches_def)
  next
    case (Cons m rest)
    with assms True have matches: "matches = [m]"
      by (auto simp: getGiftCardMatches_def Let_def split: option.splits)
    from sort_key_hd_min[OF Cons] have m: "m \<in> set ?cands"
      and least: "\<forall>u \<in> set ?cands. \<bar>t_amount (snd m) - amount\<bar> \<le> \<bar>t_amount (snd u) - amount\<bar>"
      by blast+
    from m have props: "m \<in> set mintTransactions" "t_amount (snd m) < 0"
      "inRange (t_date (snd m)) (o_orderDate amazonOrder)" "amount < t_amount (snd m)"
      by simp_all
    then have smaller: "\<bar>t_amount (snd m)\<bar> < \<bar>amount\<bar>" by linarith
    have least': "\<forall>u \<in> set mintTransactions.
               t_amount (snd u) < 0 \<and> inRange (t_date (snd u)) (o_orderDate amazonOrder) \<and>
               amount < t_amount (snd u)
               \<longrightarrow> \<bar>t_amount (snd m) - amount\<bar> \<le> \<bar>t_amount (snd u) - amount\<bar>"
    proof (intro ballI impI)
      fix u assume "u \<in> set mintTransactions"
        and "t_amount (snd u) < 0 \<and> inRange (t_date (snd u)) (o_orderDate amazonOrder) \<and>
               amount < t_amount (snd u)"
      then have "u \<in> set ?cands" by simp
      with least show "\<bar>t_amount (snd m) - amount\<bar> \<le> \<bar>t_amount (snd u) - amount\<bar>" by blast
    qed
    from matches props smaller least' True show ?thesis by simp
  qed
qed


text \<open>
  C3, with the comparison that the source makes: a returned transaction has an amount
  greater than the candidate amount, hence an absolute amount below \<open>\<bar>amount\<bar>\<close>. The
  strategy returns no transaction when \<^verbatim>\<open>usedGiftCard\<close> is false; a transaction it returns
  is the only one returned, an unmatched debit within the window, and no debit of the
  window with an amount greater than \<open>amount\<close> is closer to \<open>amount\<close>.
\<close>

theorem getGiftCardMatches_picks:
  "(\<not> o_usedGiftCard amazonOrder \<longrightarrow>
      getGiftCardMatches shipments amount amazonOrder amazonReturns mintTransactions
        = Some ([], shipments, amazonReturns)) \<and>
   (\<forall>matches shipments' amazonReturns'.
      getGiftCardMatches shipments amount amazonOrder amazonReturns mintTransactions
        = Some (matches, shipments', amazonReturns') \<longrightarrow>
      (\<forall>t \<in> set matches.
         matches = [t] \<and> t \<in> set mintTransactions \<and> t_amount (snd t) < 0 \<and>
         inRange (t_date (snd t)) (o_orderDate amazonOrder) \<and>
         amount < t_amount (snd t) \<and> \<bar>t_amount (snd t)\<bar> < \<bar>amount\<bar> \<and>
         (\<forall>u \<in> set mintTransactions.
            t_amount (snd u) < 0 \<and> inRange (t_date (snd u)) (o_orderDate amazonOrder) \<and>
            amount < t_amount (snd u)
            \<longrightarrow> \<bar>t_amount (snd t) - amount\<bar> \<le> \<bar>t_amount (snd u) - amount\<bar>)))"
proof (intro conjI allI impI)
  assume "\<not> o_usedGiftCard amazonOrder"
  then show "getGiftCardMatches shipments amount amazonOrder amazonReturns mintTransactions
               = Some ([], shipments, amazonReturns)"
    by (simp add: getGiftCardMatches_def)
next
  fix matches shipments' amazonReturns'
  assume "getGiftCardMatches shipments amount amazonOrder amazonReturns mintTransactions
            = Some (matches, shipments', amazonReturns')"
  from getGiftCardMatches_Some[OF this]
  show "\<forall>t \<in> set matches.
         matches = [t] \<and> t \<in> set mintTransactions \<and> t_amount (snd t) < 0 \<and>
         inRange (t_date (snd t)) (o_orderDate amazonOrder) \<and>
         amount < t_amount (snd t) \<and> \<bar>t_amount (snd t)\<bar> < \<bar>amount\<bar> \<and>
         (\<forall>u \<in> set mintTransactions.
            t_amount (snd u) < 0 \<and> inRange (t_date (snd u)) (o_orderDate amazonOrder) \<and>
            amount < t_amount (snd u)
            \<longrightarrow> \<bar>t_amount (snd t) - amount\<bar> \<le> \<bar>t_amount (snd u) - amount\<bar>)"
    by blast
qed

lemma getGiftCardMatches_C:
  "getGiftCardMatches [(0, shipmentC)] (- 55) workingOrderC [] [(0, transactionC)]
     = Some ([(0, transactionC)],
             [(0, shipmentC\<lparr>s_items := s_items shipmentC @
                                 [\<lparr>i_description = ''Gift Card'', i_amount = 15\<rparr>]\<rparr>)],
             [])"
  by code_simp

theorem getGiftCardMatches_picks_witness:
  "getGiftCardMatches [(0, shipmentC)] (- 55) workingOrderC [] [(0, transactionC)]
     = Some ([(0, transactionC)],
             [(0, shipmentC\<lparr>s_items := s_items shipmentC @
                                 [\<lparr>i_description = ''Gift Card'', i_amount = 15\<rparr>]\<rparr>)],
             [])
   \<and> - 55 < t_amount transactionC \<and> \<bar>t_amount transactionC\<bar> < \<bar>- 55 :: rat\<bar>"
  using getGiftCardMatches_picks[of workingOrderC "[(0, shipmentC)]" "- 55" "[]"
          "[(0, transactionC)]"] getGiftCardMatches_C
  by simp

text \<open>
  Scenario C: the strategy returns the debit of -40, whose absolute amount does not
  exceed the 55 of the candidate amount, as C3 would have it.
\<close>

theorem getGiftCardMatches_counterexample:
  "getGiftCardMatches [(0, shipmentC)] (- 55) workingOrderC [] [(0, transactionC)]
     = Some ([(0, transactionC)],
             [(0, shipmentC\<lparr>s_items := s_items shipmentC @
                                 [\<lparr>i_description = ''Gift Card'', i_amount = 15\<rparr>]\<rparr>)],
             [])
   \<and> \<not> \<bar>t_amount transactionC\<bar> > \<bar>- 55 :: rat\<bar>"
  by code_simp

text \<open>
  C4, with the amount that the source computes. For an order flagged \<^verbatim>\<open>usedGiftCard\<close>, a
  group of one shipment of -55, a sole transaction of -40 within the window and no
  pending return of amount 15: the Exact and the Combination strategy return no match,
  and the Gift-Card strategy returns the transaction and appends to the shipment a
  \<^verbatim>\<open>Gift Card\<close> item of amount \<open>15\<close>, which is \<^verbatim>\<open>Number((-giftCardAmount).toFixed(2))\<close> for
  \<^verbatim>\<open>giftCardAmount = -55 - (-40)\<close>.
\<close>

theorem giftCard_scenario:
  assumes "o_usedGiftCard amazonOrder"
    and "s_amount (snd shipment) = - 55"
    and "t_amount (snd transaction) = - 40"
    and "inRange (t_date (snd transaction)) (o_orderDate amazonOrder)"
    and "\<forall>returnRecord \<in> set amazonReturns. \<not> amountsMatch (r_amount (snd returnRecord)) 15"
  shows "getExactMatches [shipment] (getTotalAmount (map (\<lambda>s. s_amount (snd s)) [shipment]))
           amazonOrder amazonReturns [transaction] = [] \<and>
         getCombinationMatches [shipment] (getTotalAmount (map (\<lambda>s. s_amount (snd s)) [shipment]))
           amazonOrder amazonReturns [transaction] = Some [] \<and>
         getGiftCardMatches [shipment] (getTotalAmount (map (\<lambda>s. s_amount (snd s)) [shipment]))
           amazonOrder amazonReturns [transaction]
         = Some ([transaction],
                 [(fst shipment,
                   (snd shipment)\<lparr>s_items := s_items (snd shipment) @
                      [\<lparr>i_description = ''Gift Card'', i_amount = 15\<rparr>]\<rparr>)],
                 amazonReturns)"
proof -
  have total: "getTotalAmount (map (\<lambda>s. s_amount (snd s)) [shipment]) = - 55"
    using assms(2) by simp
  have nofind: "List.find (\<lambda>returnRecord. amountsMatch (r_amount (snd returnRecord)) 15) amazonReturns = None"
    using assms(5) by (auto simp: find_None_iff)
  have fx: "toFixed2 15 = 15" using toFixed2_int[of 15] by simp
  have e: "getExactMatches [shipment] (- 55) amazonOrder amazonReturns [transaction] = []"
    using assms(3) by (simp add: getExactMatches_def amountsMatch_def)
  have c: "getCombinationMatches [shipment] (- 55) amazonOrder amazonReturns [transaction] = Some []"
    using assms(3,4) by (simp add: getCombinationMatches_def combinations_single)
  have g: "getGiftCardMatches [shipment] (- 55) amazonOrder amazonReturns [transaction]
         = Some ([transaction],
                 [(fst shipment,
                   (snd shipment)\<lparr>s_items := s_items (snd shipment) @
                      [\<lparr>i_description = ''Gift Card'', i_amount = 15\<rparr>]\<rparr>)],
                 amazonReturns)"
    using assms(1,3,4) nofind fx
    by (simp add: getGiftCardMatches_def pushItems_def GIFT_CARD_DESCRIPTION_def)
  from e c g show ?thesis unfolding total by simp
qed


theorem giftCard_scenario_witness:
  "o_usedGiftCard workingOrderC \<and> s_amount shipmentC = - 55 \<and> t_amount transactionC = - 40 \<and>
   inRange (t_date transactionC) (o_orderDate workingOrderC) \<and>
   getGiftCardMatches [(0, shipmentC)] (getTotalAmount [s_amount shipmentC]) workingOrderC []
       [(0, transactionC)]
     = Some ([(0, transactionC)],
             [(0, shipmentC\<lparr>s_items := s_items shipmentC @
                                 [\<lparr>i_description = ''Gift Card'', i_amount = 15\<rparr>]\<rparr>)],
             [])"
proof -
  have h1: "o_usedGiftCard workingOrderC" by (simp add: workingOrderC_def)
  have h2: "s_amount (snd (0::nat, shipmentC)) = - 55" by (simp add: shipmentC_def)
  have h3: "t_amount (snd (0::nat, transactionC)) = - 40" by (simp add: transactionC_def)
  have h4: "inRange (t_date (snd (0::nat, transactionC))) (o_orderDate workingOrderC)"
    by (simp add: transactionC_def workingOrderC_def inRange_def WINDOW_MS_def DAY_def)
  have h5: "\<forall>returnRecord \<in> set ([] :: Return obj list).
              \<not> amountsMatch (r_amount (snd returnRecord)) 15" by simp
  from giftCard_scenario[OF h1 h2 h3 h4 h5] h1 h2 h3 h4 show ?thesis by simp
qed

text \<open>Scenario C: the item appended to the shipment has the amount 15, and none has -15.\<close>

theorem giftCard_scenario_counterexample:
  "getGiftCardMatches [(0, shipmentC)] (getTotalAmount [s_amount shipmentC]) workingOrderC []
       [(0, transactionC)]
     = Some ([(0, transactionC)],
             [(0, shipmentC\<lparr>s_items := s_items shipmentC @
                                 [\<lparr>i_description = ''Gift Card'', i_amount = 15\<rparr>]\<rparr>)],
             [])
   \<and> \<lparr>i_description = ''Gift Card'', i_amount = - 15\<rparr>
       \<notin> set (s_items shipmentC @ [\<lparr>i_description = ''Gift Card'', i_amount = 15\<rparr>])"
  by code_simp

text \<open>The whole run of scenario C: the record of the debit holds the item of amount 15.\<close>

lemma joinOrders_C:
  "joinOrders [transactionC] [orderC] []
     = Some \<lparr>res_joinedRecords =
               [\<lparr>j_mintTransactionId = ''M1'', j_orderId = ''O1'', j_orderDate = 0,
                 j_amount = - 40,
                 j_items = [\<lparr>ji_trackingId = ''T1'', ji_description = ''Amazon - Book'',
                             ji_amount = - 55\<rparr>,
                            \<lparr>ji_trackingId = ''T1'', ji_description = ''Amazon - Gift Card'',
                             ji_amount = 15\<rparr>],
                 j_isUnmodified = False\<rparr>],
             res_remainingMintTransactions = [],
             res_remainingAmazonOrders = [],
             res_remainingAmazonReturns = []\<rparr>"
  by code_simp

section \<open>The caller's arrays\<close>

text \<open>
  C5 fails on the returns. Scenario C with the pending return of 15: the Gift-Card
  strategy absorbs the return and removes it from \<^verbatim>\<open>amazonReturns\<close>, which is still the
  caller's array, since the copy of line 410 comes after the strategy passes. The
  caller passed an array holding one return and finds it empty.
\<close>

theorem caller_returns_mutated:
  "callerAmazonReturns [transactionC] [orderC] [returnC] = Some [] \<and> [returnC] \<noteq> []"
  by code_simp

section \<open>The exact-subset attempt of the item allocation\<close>

text \<open>
  C6 fails when more than one subset matches. For the pool A (-10), B (-10), C (-5) and
  a transaction of -10, the subsets \<open>[A]\<close> (mask 1) and \<open>[B]\<close> (mask 2) match. The
  allocation is the last one, \<open>[B]\<close>, and both A and B are removed from the pool: A is in
  no allocation and in no pool.
\<close>

theorem allocateItems_drops_item:
  "allocateItems (flattenItems [(0, \<lparr>s_trackingId = ''T1'', s_shipmentDate = 0, s_amount = - 25,
                                     s_items = itemsABC\<rparr>)]) (- 10)
     = Some ([\<lparr>ji_trackingId = ''T1'', ji_description = ''Amazon - B'', ji_amount = - 10\<rparr>],
             [(2, \<lparr>ji_trackingId = ''T1'', ji_description = ''Amazon - C'', ji_amount = - 5\<rparr>)])"
  by code_simp

text \<open>
  In the run, the Combination strategy matches the order to both debits; the record of
  the second debit then holds C and a balancing item of -10 in place of A.
\<close>

lemma joinOrders_ABC:
  "joinOrders [transaction10, transaction15] [orderABC] []
     = Some \<lparr>res_joinedRecords =
               [\<lparr>j_mintTransactionId = ''M1'', j_orderId = ''O1'', j_orderDate = 0,
                 j_amount = - 10,
                 j_items = [\<lparr>ji_trackingId = ''T1'', ji_description = ''Amazon - B'',
                             ji_amount = - 10\<rparr>],
                 j_isUnmodified = False\<rparr>,
                \<lparr>j_mintTransactionId = ''M2'', j_orderId = ''O1'', j_orderDate = 0,
                 j_amount = - 15,
                 j_items = [\<lparr>ji_trackingId = ''T1'', ji_description = ''Amazon - C'',
                             ji_amount = - 5\<rparr>,
                            \<lparr>ji_trackingId = ''none'',
                             ji_description = ''Amazon - Balance Adjust'', ji_amount = - 10\<rparr>],
                 j_isUnmodified = False\<rparr>],
             res_remainingMintTransactions = [],
             res_remainingAmazonOrders = [],
             res_remainingAmazonReturns = []\<rparr>"
  by code_simp

section \<open>The order of the joined records\<close>

lemma joinOrders_Some:
  assumes "joinOrders mintTransactions amazonOrders amazonReturns = Some result"
  shows "\<exists>st. matchPasses mintTransactions amazonOrders amazonReturns = Some st \<and>
              result = \<lparr>res_joinedRecords = sort_key j_orderDate (v_joinedRecords (finalState st)),
                        res_remainingMintTransactions = map snd (v_mintTransactions (finalState st)),
                        res_remainingAmazonOrders =
                          map (\<lambda>order. plainOrder (snd order)) (v_amazonOrders (finalState st)),
                        res_remainingAmazonReturns = map snd (v_amazonReturns (finalState st))\<rparr>"
  using assms by (auto simp: joinOrders_def Let_def split: option.splits)

text \<open>
  C10. The joined records that \<^const>\<open>joinOrders\<close> returns are sorted by \<open>j_orderDate\<close>, the
  \<^verbatim>\<open>orderDate\<close> field, in non-decreasing order; the record of a return holds the
  \<^verbatim>\<open>returnDate\<close> of the return in that field.
\<close>

theorem joinOrders_sorted:
  assumes "joinOrders mintTransactions amazonOrders amazonReturns = Some result"
  shows "sorted (map j_orderDate (res_joinedRecords result)) \<and>
         (\<forall>amazonReturn transaction giftCard.
            j_orderDate (makeReturnRecord amazonReturn transaction giftCard)
              = r_returnDate amazonReturn)"
proof -
  from joinOrders_Some[OF assms] have "sorted (map j_orderDate (res_joinedRecords result))"
    by (auto simp: sorted_sort_key)
  moreover have "\<forall>amazonReturn transaction giftCard.
            j_orderDate (makeReturnRecord amazonReturn transaction giftCard)
              = r_returnDate amazonReturn"
    by (simp add: makeReturnRecord_def Let_def)
  ultimately show ?thesis by simp
qed

theorem joinOrders_sorted_witness:
  "joinOrders [transactionA, transactionD] [orderA] [returnD] = Some resultAD \<and>
   sorted (map j_orderDate (res_joinedRecords resultAD)) \<and>
   map j_orderDate (res_joinedRecords resultAD) = [3 * DAY, 10 * DAY]"
  using joinOrders_sorted[OF joinOrders_AD] joinOrders_AD
  by (simp add: resultAD_def)


section \<open>What a group step appends and removes\<close>

lemma joinGroup_effect:
  assumes "joinGroup i amazonOrder g matches shipments' st = Some (i', amazonOrder', st')"
  shows "\<exists>allocs. length allocs = length matches \<and>
           v_joinedRecords st' = v_joinedRecords st @
              map (\<lambda>(match, a). makeRecord (snd amazonOrder) (snd match) a) (zip matches allocs) \<and>
           v_mintTransactions st' = foldl removeItem (v_mintTransactions st) matches \<and>
           v_amazonReturns st' = v_amazonReturns st \<and>
           amazonOrder' =
             (fst amazonOrder,
              (snd amazonOrder)\<lparr>o_shipments := foldl removeItem (o_shipments (snd amazonOrder)) g\<rparr>) \<and>
           v_amazonOrders st' =
             (if o_shipments (snd amazonOrder') = []
              then removeItem (updateObj (v_amazonOrders st) amazonOrder') amazonOrder'
              else updateObj (v_amazonOrders st) amazonOrder') \<and>
           (\<forall>k < length matches. \<exists>pool pool'. set pool \<subseteq> set (flattenItems shipments') \<and>
               allocateItems pool (t_amount (snd (matches ! k))) = Some (allocs ! k, pool'))"
proof -
  from assms obtain items2 st2 where
    m: "matchesLoop matches (snd amazonOrder) (flattenItems shipments') st = Some (items2, st2)"
    by (auto simp: joinGroup_def split: option.splits)
  from matchesLoop_frame[OF m] have fr: "v_amazonOrders st2 = v_amazonOrders st"
    "v_amazonReturns st2 = v_amazonReturns st" by simp_all
  from matchesLoop_effect[OF m] obtain allocs where
    al: "length allocs = length matches"
      "v_joinedRecords st2 = v_joinedRecords st @
              map (\<lambda>(match, a). makeRecord (snd amazonOrder) (snd match) a) (zip matches allocs)"
      "v_mintTransactions st2 = foldl removeItem (v_mintTransactions st) matches"
      "\<forall>k < length matches. \<exists>pool pool'. set pool \<subseteq> set (flattenItems shipments') \<and>
               allocateItems pool (t_amount (snd (matches ! k))) = Some (allocs ! k, pool')"
    by blast
  have o1: "amazonOrder' = (fst amazonOrder,
              (snd amazonOrder)\<lparr>o_shipments := foldl removeItem (o_shipments (snd amazonOrder)) g\<rparr>)"
    using assms by (rule joinGroup_order)
  have st': "v_joinedRecords st' = v_joinedRecords st2 \<and>
             v_mintTransactions st' = v_mintTransactions st2 \<and>
             v_amazonReturns st' = v_amazonReturns st2 \<and>
             v_amazonOrders st' =
             (if o_shipments (snd amazonOrder') = []
              then removeItem (updateObj (v_amazonOrders st2) amazonOrder') amazonOrder'
              else updateObj (v_amazonOrders st2) amazonOrder')"
    using assms m unfolding o1 by (auto simp: joinGroup_def Let_def split: if_splits)
  from st' al fr o1 show ?thesis by (intro exI[of _ allocs]) simp
qed

lemma set_sort_key_filter_sub: "set (sort_key k (filter P xs)) \<subseteq> set xs"
  by auto


lemma find_Some_set: "List.find P xs = Some x \<Longrightarrow> x \<in> set xs \<and> P x"
  by (induction xs) (auto split: if_splits)









section \<open>The ledger of the transactions\<close>









lemma scanTransactions_Some:
  "scanTransactions amazonReturn giftCards pool = Some (transaction, giftCard) \<Longrightarrow>
     transaction \<in> set pool \<and>
     giftCard = List.find (\<lambda>giftCard. amountsMatch (t_amount (snd transaction))
                                   (r_amount amazonReturn - g_amount giftCard)) giftCards \<and>
     (giftCard \<noteq> None \<or> amountsMatch (t_amount (snd transaction)) (r_amount amazonReturn))"
proof (induction pool)
  case Nil
  then show ?case by simp
next
  case (Cons t pool)
  then show ?case by (auto simp: Let_def split: if_splits)
qed



lemma map_snd_enumerate': "map snd (enumerate n xs) = xs"
  by (simp add: enumerate_eq_zip)


section \<open>The pools only shrink\<close>

lemma subseq_removeItem: "subseq (removeItem xs x) xs"
  by (induction xs) auto


text \<open>What a strategy does to the returns array and to the group.\<close>

lemma runMatcher_writes:
  assumes "runMatcher matcher g amount amazonOrder amazonReturns pool
             = Some (matches, shipments', amazonReturns')"
  shows "(shipments' = g \<and> amazonReturns' = amazonReturns) \<or>
         (\<exists>matchingReturn \<in> set amazonReturns.
            amazonReturns' = removeItem amazonReturns matchingReturn \<and>
            pushItems g (map (\<lambda>item. \<lparr>i_description = i_description item,
                                       i_amount = - i_amount item\<rparr>)
                           (r_items (snd matchingReturn))) = Some shipments') \<or>
         (\<exists>x. amazonReturns' = amazonReturns \<and>
            pushItems g [\<lparr>i_description = GIFT_CARD_DESCRIPTION, i_amount = toFixed2 x\<rparr>]
              = Some shipments')"
proof (cases matcher)
  case ExactMatches
  with assms show ?thesis by auto
next
  case CombinationMatches
  with assms show ?thesis by (auto split: option.splits)
next
  case GiftCardMatches
  with assms have g: "getGiftCardMatches g amount amazonOrder amazonReturns pool
             = Some (matches, shipments', amazonReturns')" by simp
  show ?thesis
  proof (cases "matches = []")
    case True
    with assms runMatcher_nomatch show ?thesis by blast
  next
    case False
    let ?cands = "sort_key (\<lambda>a. \<bar>t_amount (snd a) - amount\<bar>)
                (filter (\<lambda>mintTransaction. t_amount (snd mintTransaction) > amount)
                  (filter (\<lambda>mintTransaction. inRange (t_date (snd mintTransaction))
                                                    (o_orderDate amazonOrder))
                    (filter (\<lambda>mintTransaction. t_amount (snd mintTransaction) < 0)
                       pool)))"
    from g False have used: "o_usedGiftCard amazonOrder"
      by (auto simp: getGiftCardMatches_def split: if_splits)
    from g False used obtain m rest where c: "?cands = m # rest"
      by (cases ?cands) (auto simp: getGiftCardMatches_def)
    let ?f = "List.find (\<lambda>returnRecord. amountsMatch (r_amount (snd returnRecord))
                                                           (- (amount - t_amount (snd m))))
                       amazonReturns"
    show ?thesis
    proof (cases ?f)
      case None
      with g used c have "amazonReturns' = amazonReturns \<and>
            pushItems g [\<lparr>i_description = GIFT_CARD_DESCRIPTION,
                          i_amount = toFixed2 (- (amount - t_amount (snd m)))\<rparr>] = Some shipments'"
        by (auto simp: getGiftCardMatches_def Let_def split: option.splits)
      then show ?thesis by blast
    next
      case (Some matchingReturn)
      from find_Some_set[OF Some] have "matchingReturn \<in> set amazonReturns" by simp
      moreover from g used c Some have "amazonReturns' = removeItem amazonReturns matchingReturn \<and>
            pushItems g (map (\<lambda>item. \<lparr>i_description = i_description item,
                                       i_amount = - i_amount item\<rparr>)
                           (r_items (snd matchingReturn))) = Some shipments'"
        by (auto simp: getGiftCardMatches_def Let_def split: option.splits)
      ultimately show ?thesis by blast
    qed
  qed
qed

lemma runMatcher_returns_subseq:
  assumes "runMatcher matcher g amount amazonOrder amazonReturns pool
             = Some (matches, shipments', amazonReturns')"
  shows "subseq amazonReturns' amazonReturns"
  using runMatcher_writes[OF assms] subseq_removeItem by auto








lemma map_fst_updateObj [simp]: "map fst (updateObj array object) = map fst array"
  by (induction array) (auto simp: updateObj_def)



section \<open>From the steps to the result of joinOrders\<close>





text \<open>The state that the strategy passes start from.\<close>

definition initialState :: "Transaction list \<Rightarrow> Shipment Order list \<Rightarrow> Return list \<Rightarrow> State" where
  "initialState mintTransactions amazonOrders amazonReturns =
     \<lparr>v_mintTransactions = enumerate 0 mintTransactions,
      v_amazonOrders =
        sort_key (\<lambda>order. - getTotalAmount (map (\<lambda>s. s_amount (snd s)) (o_shipments (snd order))))
          (cloneOrders amazonOrders),
      v_amazonReturns = enumerate 0 amazonReturns,
      v_joinedRecords = [],
      v_giftCards = []\<rparr>"

lemma matchPasses_reach:
  assumes "matchPasses txns orders rets = Some st"
  shows "groupStep\<^sup>*\<^sup>* (initialState txns orders rets) st"
  using assms unfolding matchPasses_def initialState_def by (rule matchersLoop_reach)

lemma finalState_reach:
  "returnStep\<^sup>*\<^sup>* (st\<lparr>v_amazonReturns := enumerate 0 (map snd (v_amazonReturns st))\<rparr>) (finalState st)"
  unfolding finalState_def by (rule returnsLoop_reach)

text \<open>A property that the start has and every step keeps holds when \<^const>\<open>joinOrders\<close> returns.\<close>

lemma run_invariant:
  assumes "matchPasses txns orders rets = Some st"
    and "I (initialState txns orders rets)"
    and "\<And>s s'. groupStep s s' \<Longrightarrow> I s \<Longrightarrow> I s'"
    and "\<And>s. I s \<Longrightarrow> I (s\<lparr>v_amazonReturns := enumerate 0 (map snd (v_amazonReturns s))\<rparr>)"
    and "\<And>s s'. returnStep s s' \<Longrightarrow> I s \<Longrightarrow> I s'"
  shows "I st \<and> I (finalState st)"
proof -
  from matchPasses_reach[OF assms(1)] assms(2) have i: "I st"
    by (induction rule: rtranclp_induct) (auto intro: assms(3))
  then have "I (st\<lparr>v_amazonReturns := enumerate 0 (map snd (v_amazonReturns st))\<rparr>)"
    by (rule assms(4))
  with finalState_reach[of st] have "I (finalState st)"
    by (induction rule: rtranclp_induct) (auto intro: assms(5))
  with i show ?thesis by simp
qed











section \<open>Rounding and tolerance\<close>

text \<open>\<^verbatim>\<open>toFixed(2)\<close> moves an amount by half a cent at most.\<close>

lemma round_close:
  fixes y :: rat
  shows "\<bar>of_int \<lfloor>y * 100 + 1 / 2\<rfloor> / 100 - y\<bar> \<le> 1 / 200"
proof -
  let ?n = "of_int \<lfloor>y * 100 + 1 / 2\<rfloor> :: rat"
  have "?n \<le> y * 100 + 1 / 2" by (rule of_int_floor_le)
  moreover have "y * 100 + 1 / 2 < ?n + 1" using floor_correct[of "y * 100 + 1 / 2"] by simp
  ultimately have "\<bar>?n - y * 100\<bar> \<le> 1 / 2" by linarith
  moreover have "?n / 100 - y = (?n - y * 100) / 100" by (simp add: diff_divide_distrib)
  ultimately show ?thesis by (simp only: abs_divide)
qed

lemma toFixed2_close: "\<bar>toFixed2 x - x\<bar> \<le> 1 / 200"
proof (cases "x < 0")
  case True
  have "\<bar>of_int \<lfloor>(- x) * 100 + 1 / 2\<rfloor> / 100 - (- x)\<bar> \<le> 1 / 200" by (rule round_close)
  moreover have "toFixed2 x - x = - (of_int \<lfloor>(- x) * 100 + 1 / 2\<rfloor> / 100 - (- x))"
    using True by (simp add: toFixed2_def)
  ultimately show ?thesis by (simp only: abs_minus_cancel)
next
  case False
  then have "toFixed2 x = of_int \<lfloor>x * 100 + 1 / 2\<rfloor> / 100" by (simp add: toFixed2_def)
  then show ?thesis by (simp only: round_close)
qed


lemma foldl_add_sum_list: "foldl (\<lambda>amount item. amount + item) a xs = a + sum_list (xs :: rat list)"
  by (induction xs arbitrary: a) (simp_all add: ac_simps)

lemma getTotalAmount_sum_list: "getTotalAmount xs = toFixed2 (sum_list xs)"
  by (simp add: getTotalAmount_def foldl_add_sum_list)

lemma getTotalAmount_close: "\<bar>getTotalAmount xs - sum_list xs\<bar> \<le> 1 / 200"
  unfolding getTotalAmount_sum_list by (rule toFixed2_close)


text \<open>The exact-subset attempt keeps \<open>matchItems\<close> or ends on a combination that matches.\<close>

lemma exactScan_result:
  "exactScan cs matchAmount matchItems items = (matchItems', items') \<Longrightarrow>
     matchItems' = matchItems \<or>
     (matchItems' \<in> set cs \<and>
      amountsMatch (getTotalAmount (map (\<lambda>item. ji_amount (snd item)) matchItems')) matchAmount)"
proof (induction cs arbitrary: matchItems items)
  case Nil
  then show ?case by simp
next
  case (Cons c cs)
  show ?case
  proof (cases "amountsMatch (getTotalAmount (map (\<lambda>item. ji_amount (snd item)) c)) matchAmount")
    case True
    with Cons.prems have "exactScan cs matchAmount c (foldl removeItem items c) = (matchItems', items')"
      by simp
    from Cons.IH[OF this] True show ?thesis by auto
  next
    case False
    with Cons.prems have "exactScan cs matchAmount matchItems items = (matchItems', items')"
      by simp
    from Cons.IH[OF this] show ?thesis by auto
  qed
qed

text \<open>The split: what is left of the amount is the amount less the items taken.\<close>

lemma splitItems_sum:
  "splitItems items remainingAmount matchItems = (matchItems', items', remainingAmount') \<Longrightarrow>
     remainingAmount' + sum_list (map (\<lambda>item. ji_amount (snd item)) matchItems')
       = remainingAmount + sum_list (map (\<lambda>item. ji_amount (snd item)) matchItems)"
proof (induction items arbitrary: remainingAmount matchItems)
  case Nil
  then show ?case by simp
next
  case (Cons item items)
  show ?case
  proof (cases "remainingAmount < 0")
    case True
    with Cons.prems have "splitItems items (remainingAmount - ji_amount (snd item)) (matchItems @ [item])
                            = (matchItems', items', remainingAmount')" by simp
    from Cons.IH[OF this] show ?thesis by simp
  next
    case False
    with Cons.prems show ?thesis by simp
  qed
qed

text \<open>
  An allocation sums to the amount of the match within a cent and a half: the tolerance
  of \<^const>\<open>amountsMatch\<close> and the rounding of \<^const>\<open>getTotalAmount\<close>.
\<close>

lemma allocateItems_balance:
  assumes "allocateItems pool matchAmount = Some (matchItems, pool')"
  shows "\<bar>sum_list (map ji_amount matchItems) - matchAmount\<bar> < 3 / 200"
proof -
  from assms obtain cs where cs: "combinations pool = Some cs"
    by (auto simp: allocateItems_def split: option.splits)
  obtain m1 i1 where e: "exactScan cs matchAmount [] pool = (m1, i1)"
    by (cases "exactScan cs matchAmount [] pool")
  have ms: "\<And>m :: JoinedRecordItem obj list.
              sum_list (map ji_amount (map snd m)) = sum_list (map (\<lambda>item. ji_amount (snd item)) m)"
    by (simp add: o_def)
  show ?thesis
  proof (cases "length m1 = 0")
    case False
    with assms cs e have mi: "matchItems = map snd m1" by (simp add: allocateItems_def)
    from exactScan_result[OF e] False
    have "amountsMatch (getTotalAmount (map (\<lambda>item. ji_amount (snd item)) m1)) matchAmount"
      by auto
    then have "\<bar>getTotalAmount (map (\<lambda>item. ji_amount (snd item)) m1) - matchAmount\<bar> < 1 / 100"
      by (simp only: amountsMatch_def)
    moreover have "\<bar>getTotalAmount (map (\<lambda>item. ji_amount (snd item)) m1)
                     - sum_list (map (\<lambda>item. ji_amount (snd item)) m1)\<bar> \<le> 1 / 200"
      by (rule getTotalAmount_close)
    ultimately have "\<bar>sum_list (map (\<lambda>item. ji_amount (snd item)) m1) - matchAmount\<bar> < 3 / 200"
      by linarith
    then show ?thesis unfolding mi ms .
  next
    case True
    obtain m2 i2 r2 where sp: "splitItems i1 matchAmount [] = (m2, i2, r2)"
      by (cases "splitItems i1 matchAmount []") auto
    from splitItems_sum[OF sp] have s: "r2 + sum_list (map (\<lambda>item. ji_amount (snd item)) m2) = matchAmount"
      by simp
    show ?thesis
    proof (cases "amountsMatch r2 0")
      case True
      with assms cs e \<open>length m1 = 0\<close> sp have "matchItems = map snd m2"
        by (simp add: allocateItems_def)
      then have "sum_list (map ji_amount matchItems)
                   = sum_list (map (\<lambda>item. ji_amount (snd item)) m2)"
        by (simp only: ms)
      then have "sum_list (map ji_amount matchItems) - matchAmount = - r2"
        using s by linarith
      moreover have "\<bar>r2\<bar> < 1 / 100" using True by (simp add: amountsMatch_def)
      ultimately show ?thesis by simp
    next
      case False
      with assms cs e \<open>length m1 = 0\<close> sp have
        "matchItems = map snd m2 @ [\<lparr>ji_trackingId = ''none'',
                                      ji_description = DESCRIPTION_PREFIX @ ''Balance Adjust'',
                                      ji_amount = r2\<rparr>]"
        by (simp add: allocateItems_def)
      then have "sum_list (map ji_amount matchItems)
                   = sum_list (map (\<lambda>item. ji_amount (snd item)) m2) + r2"
        by (simp only: sum_list_append map_append ms) simp
      then have "sum_list (map ji_amount matchItems) - matchAmount = 0"
        using s by linarith
      then show ?thesis by simp
    qed
  qed
qed



section \<open>The amounts of a record\<close>

lemma subseq_set: "subseq xs ys \<Longrightarrow> set xs \<subseteq> set ys"
proof -
  assume "subseq xs ys"
  then obtain N where "xs = nths ys N" unfolding subseq_conv_nths ..
  then show ?thesis by (simp add: set_nths_subset)
qed

lemma set_snd_enumerate: "snd ` set (enumerate n xs) = set xs"
  by (metis map_snd_enumerate' set_map)

lemma snd_in_enumerate: "x \<in> set (enumerate n xs) \<Longrightarrow> snd x \<in> set xs"
  using set_snd_enumerate[of n xs] by blast


lemma sum_negated_items:
  "sum_list (map ji_amount (map (\<lambda>item. \<lparr>ji_trackingId = tr,
                                          ji_description = d item,
                                          ji_amount = - i_amount item\<rparr>) xs))
     = - sum_list (map i_amount xs)"
  by (induction xs) simp_all

text \<open>
  A return as \<^verbatim>\<open>AmazonClient.getReturns\<close> hands it to \<^verbatim>\<open>joinOrders\<close>: it passed the test
  \<^verbatim>\<open>amountsMatch(-amount, completeReturn.amount)\<close> for the total \<^verbatim>\<open>amount\<close> of its items.
\<close>

definition goodReturn :: "Return \<Rightarrow> bool" where
  "goodReturn amazonReturn \<longleftrightarrow>
     amountsMatch (- getTotalAmount (map i_amount (r_items amazonReturn))) (r_amount amazonReturn)"

definition conserved :: "JoinedRecord \<Rightarrow> bool" where
  "conserved r \<longleftrightarrow> \<bar>sum_list (map ji_amount (j_items r)) - j_amount r\<bar> < 3 / 100"

definition amountsInv :: "State \<Rightarrow> bool" where
  "amountsInv st \<longleftrightarrow>
     (\<forall>amazonReturn \<in> set (v_amazonReturns st). goodReturn (snd amazonReturn)) \<and>
     (\<forall>r \<in> set (v_joinedRecords st). conserved r)"

lemma goodReturn_balance:
  assumes "goodReturn amazonReturn"
  shows "\<bar>- sum_list (map i_amount (r_items amazonReturn)) - r_amount amazonReturn\<bar> < 3 / 200"
proof -
  let ?xs = "map i_amount (r_items amazonReturn)"
  from assms have "\<bar>- getTotalAmount ?xs - r_amount amazonReturn\<bar> < 1 / 100"
    by (simp only: goodReturn_def amountsMatch_def)
  moreover have "\<bar>getTotalAmount ?xs - sum_list ?xs\<bar> \<le> 1 / 200" by (rule getTotalAmount_close)
  ultimately show ?thesis by linarith
qed

lemma conserved_makeRecord:
  "conserved (makeRecord amazonOrder t a) \<longleftrightarrow> \<bar>sum_list (map ji_amount a) - t_amount t\<bar> < 3 / 100"
  by (simp add: conserved_def makeRecord_def Let_def)

lemma amountsInv_groupStep:
  assumes "groupStep st st'" "amountsInv st"
  shows "amountsInv st'"
  using assms(1)
proof (cases rule: groupStep.cases)
  case (groupStepI amazonOrder cs g matcher matches shipments' amazonReturns' i i' amazonOrder')
  from joinGroup_effect[OF groupStepI(6)] obtain allocs where
    len: "length allocs = length matches"
    and recs: "v_joinedRecords st' = v_joinedRecords st @
              map (\<lambda>(match, a). makeRecord (snd amazonOrder) (snd match) a) (zip matches allocs)"
    and rets: "v_amazonReturns st' = amazonReturns'"
    and al: "\<forall>k < length matches. \<exists>pool pool'. set pool \<subseteq> set (flattenItems shipments') \<and>
               allocateItems pool (t_amount (snd (matches ! k))) = Some (allocs ! k, pool')"
    by auto
  from assms(2) have
    ir: "\<forall>amazonReturn \<in> set (v_amazonReturns st). goodReturn (snd amazonReturn)"
    and ij: "\<forall>r \<in> set (v_joinedRecords st). conserved r"
    unfolding amountsInv_def by simp_all
  from runMatcher_returns_subseq[OF groupStepI(4)] have "set amazonReturns' \<subseteq> set (v_amazonReturns st)"
    by (rule subseq_set)
  with ir rets have ir': "\<forall>amazonReturn \<in> set (v_amazonReturns st'). goodReturn (snd amazonReturn)"
    by auto
  have new: "\<forall>r \<in> set (map (\<lambda>(match, a). makeRecord (snd amazonOrder) (snd match) a)
                          (zip matches allocs)). conserved r"
  proof
    fix r
    assume "r \<in> set (map (\<lambda>(match, a). makeRecord (snd amazonOrder) (snd match) a)
                          (zip matches allocs))"
    then obtain k where k: "k < length matches"
      and r: "r = makeRecord (snd amazonOrder) (snd (matches ! k)) (allocs ! k)"
      using len by (auto simp: set_zip)
    from al k obtain pool pool' where
      a: "allocateItems pool (t_amount (snd (matches ! k))) = Some (allocs ! k, pool')"
      by blast
    from allocateItems_balance[OF a]
    have "\<bar>sum_list (map ji_amount (allocs ! k)) - t_amount (snd (matches ! k))\<bar> < 3 / 100"
      by linarith
    then show "conserved r" unfolding r conserved_makeRecord .
  qed
  with ij have ij': "\<forall>r \<in> set (v_joinedRecords st'). conserved r" unfolding recs by auto
  from ir' ij' show ?thesis unfolding amountsInv_def by simp
qed

lemma conserved_makeReturnRecord:
  assumes "goodReturn amazonReturn"
    and "giftCard = List.find (\<lambda>giftCard. amountsMatch (t_amount transaction)
                                   (r_amount amazonReturn - g_amount giftCard)) giftCards"
    and "giftCard \<noteq> None \<or> amountsMatch (t_amount transaction) (r_amount amazonReturn)"
  shows "conserved (makeReturnRecord amazonReturn transaction giftCard)"
proof -
  let ?neg = "map (\<lambda>item. \<lparr>ji_trackingId = ''none'',
                          ji_description = DESCRIPTION_PREFIX @ i_description item,
                          ji_amount = - i_amount item\<rparr>) (r_items amazonReturn)"
  have neg: "sum_list (map ji_amount ?neg) = - sum_list (map i_amount (r_items amazonReturn))"
    by (simp only: sum_negated_items)
  note b = goodReturn_balance[OF assms(1)]
  show ?thesis
  proof (cases giftCard)
    case None
    with assms(3) have "\<bar>t_amount transaction - r_amount amazonReturn\<bar> < 1 / 100"
      by (simp add: amountsMatch_def)
    with b have "\<bar>sum_list (map ji_amount ?neg) - t_amount transaction\<bar> < 3 / 100"
      unfolding neg by linarith
    with None show ?thesis by (simp add: conserved_def makeReturnRecord_def Let_def)
  next
    case (Some gc)
    with assms(2) have "List.find (\<lambda>giftCard. amountsMatch (t_amount transaction)
                                   (r_amount amazonReturn - g_amount giftCard)) giftCards = Some gc"
      by simp
    from find_Some_set[OF this] have
      "\<bar>t_amount transaction - (r_amount amazonReturn - g_amount gc)\<bar> < 1 / 100"
      by (simp add: amountsMatch_def)
    with b have "\<bar>sum_list (map ji_amount ?neg) + - g_amount gc - t_amount transaction\<bar> < 3 / 100"
      unfolding neg by linarith
    with Some show ?thesis by (simp add: conserved_def makeReturnRecord_def Let_def)
  qed
qed

lemma amountsInv_returnStep:
  assumes "returnStep st st'" "amountsInv st"
  shows "amountsInv st'"
  using assms(1)
proof (cases rule: returnStep.cases)
  case (returnStepI i amazonReturn transaction giftCard)
  from assms(2) have
    ir: "\<forall>amazonReturn \<in> set (v_amazonReturns st). goodReturn (snd amazonReturn)"
    and ij: "\<forall>r \<in> set (v_joinedRecords st). conserved r"
    unfolding amountsInv_def by simp_all
  from returnStepI(2,3) have "amazonReturn \<in> set (v_amazonReturns st)" by simp
  with ir have g: "goodReturn (snd amazonReturn)" by blast
  from scanTransactions_Some[OF returnStepI(4)] have
    "giftCard = List.find (\<lambda>giftCard. amountsMatch (t_amount (snd transaction))
                                   (r_amount (snd amazonReturn) - g_amount giftCard)) (v_giftCards st)"
    "giftCard \<noteq> None \<or> amountsMatch (t_amount (snd transaction)) (r_amount (snd amazonReturn))"
    by blast+
  with g have "conserved (makeReturnRecord (snd amazonReturn) (snd transaction) giftCard)"
    by (rule conserved_makeReturnRecord)
  with ij have ij': "\<forall>r \<in> set (v_joinedRecords st'). conserved r" unfolding returnStepI(1) by simp
  have "set (removeItem (v_amazonReturns st) amazonReturn) \<subseteq> set (v_amazonReturns st)"
    by (rule set_removeItem)
  with ir have ir': "\<forall>amazonReturn \<in> set (v_amazonReturns st'). goodReturn (snd amazonReturn)"
    unfolding returnStepI(1) by auto
  from ir' ij' show ?thesis unfolding amountsInv_def by simp
qed

lemma amounts_final:
  assumes "matchPasses txns orders rets = Some st"
    and "\<forall>amazonReturn \<in> set rets. goodReturn amazonReturn"
  shows "amountsInv (finalState st)"
proof -
  have "amountsInv st \<and> amountsInv (finalState st)"
  proof (rule run_invariant[OF assms(1)])
    have "\<forall>amazonReturn \<in> set (enumerate 0 rets). goodReturn (snd amazonReturn)"
      using assms(2) set_snd_enumerate[of 0 rets] by blast
    then show "amountsInv (initialState txns orders rets)"
      by (simp add: amountsInv_def initialState_def)
  next
    fix s s' assume "groupStep s s'" "amountsInv s"
    then show "amountsInv s'" by (rule amountsInv_groupStep)
  next
    fix s assume a: "amountsInv s"
    have "\<forall>amazonReturn \<in> set (enumerate 0 (map snd (v_amazonReturns s))).
            goodReturn (snd amazonReturn)"
    proof
      fix x assume "x \<in> set (enumerate 0 (map snd (v_amazonReturns s)))"
      then have "snd x \<in> set (map snd (v_amazonReturns s))" by (rule snd_in_enumerate)
      with a show "goodReturn (snd x)" unfolding amountsInv_def by auto
    qed
    with a show "amountsInv (s\<lparr>v_amazonReturns := enumerate 0 (map snd (v_amazonReturns s))\<rparr>)"
      unfolding amountsInv_def by simp
  next
    fix s s' assume "returnStep s s'" "amountsInv s"
    then show "amountsInv s'" by (rule amountsInv_returnStep)
  qed
  then show ?thesis by simp
qed


section \<open>Shipments, returns and the records made from them\<close>
























section \<open>The records of a run\<close>

text \<open>
  More inputs: a return whose items do not add up to its amount, an order of two items
  with the same description against a transaction whose children differ, an order of
  one shipment of two items against two debits, an item of a fraction of a cent, and a
  child whose description ends with a no-break space.
\<close>

definition returnE :: Return where
  "returnE = \<lparr>r_orderId = ''O7'', r_returnDate = 3 * DAY, r_amount = 25,
               r_items = [\<lparr>i_description = ''Mug'', i_amount = - 20\<rparr>]\<rparr>"






definition orderX :: "Shipment Order" where
  "orderX = \<lparr>o_orderId = ''O1'', o_orderDate = 0, o_usedGiftCard = False,
              o_shipments = [\<lparr>s_trackingId = ''T1'', s_shipmentDate = 0, s_amount = - 10,
                               s_items = [\<lparr>i_description = ''Cable'',
                                           i_amount = - 99951 / 10000\<rparr>]\<rparr>]\<rparr>"

definition transactionX :: Transaction where
  "transactionX = \<lparr>t_id = ''M1'', t_amount = - 100099 / 10000, t_date = DAY, t_children = []\<rparr>"

definition orderN :: "Shipment Order" where
  "orderN = \<lparr>o_orderId = ''O1'', o_orderDate = 0, o_usedGiftCard = False,
              o_shipments = [\<lparr>s_trackingId = ''T1'', s_shipmentDate = 0, s_amount = - 10,
                               s_items = [\<lparr>i_description = ''A'', i_amount = - 10\<rparr>]\<rparr>]\<rparr>"

definition transactionN :: Transaction where
  "transactionN = \<lparr>t_id = ''M1'', t_amount = - 10, t_date = DAY,
                    t_children = [\<lparr>c_description = ''Amazon - A'' @ [CHR 0xA0],
                                   c_amount = - 10\<rparr>]\<rparr>"




text \<open>
  The no-break space is trimmed: the child \<^verbatim>\<open>Amazon - A\<close> followed by U+00A0 answers the
  item \<^verbatim>\<open>Amazon - A\<close>, and the record is unmodified.
\<close>

lemma joinOrders_nbsp:
  "joinOrders [transactionN] [orderN] []
     = Some \<lparr>res_joinedRecords =
               [\<lparr>j_mintTransactionId = ''M1'', j_orderId = ''O1'', j_orderDate = 0,
                 j_amount = - 10,
                 j_items = [\<lparr>ji_trackingId = ''T1'', ji_description = ''Amazon - A'',
                             ji_amount = - 10\<rparr>],
                 j_isUnmodified = True\<rparr>],
             res_remainingMintTransactions = [],
             res_remainingAmazonOrders = [],
             res_remainingAmazonReturns = []\<rparr>"
  by code_simp


text \<open>
  C1, with the tolerances that the source compounds. For returns as
  \<^verbatim>\<open>AmazonClient.getReturns\<close> hands them over (\<^const>\<open>goodReturn\<close>: the rounded total of the
  items, negated, matches the amount of the return), every JoinedRecord of the result has
  the sum of the amounts of its items within 0.03 of the amount of the record. The record
  of a purchase is within 0.015: the allocation is compared after rounding to the cent.
  The record of a return adds the 0.01 by which the transaction may differ from the
  return.
\<close>

theorem amounts_conserved:
  assumes "joinOrders mintTransactions amazonOrders amazonReturns = Some result"
    and "\<forall>amazonReturn \<in> set amazonReturns. goodReturn amazonReturn"
  shows "\<forall>r \<in> set (res_joinedRecords result).
           \<bar>sum_list (map ji_amount (j_items r)) - j_amount r\<bar> < 3 / 100"
proof -
  from joinOrders_Some[OF assms(1)] obtain st where
    m: "matchPasses mintTransactions amazonOrders amazonReturns = Some st"
    and res: "res_joinedRecords result = sort_key j_orderDate (v_joinedRecords (finalState st))"
    by auto
  from amounts_final[OF m assms(2)] have "\<forall>r \<in> set (v_joinedRecords (finalState st)). conserved r"
    unfolding amountsInv_def by simp
  then show ?thesis unfolding res conserved_def by simp
qed

text \<open>
  The theorem on the purchase and the return of the first scenario: the return is as
  \<^verbatim>\<open>getReturns\<close> makes it, and both records balance.
\<close>

theorem amounts_conserved_witness:
  "joinOrders [transactionA, transactionD] [orderA] [returnD] = Some resultAD \<and>
   goodReturn returnD \<and>
   \<bar>sum_list (map ji_amount (j_items (res_joinedRecords resultAD ! 0)))
      - j_amount (res_joinedRecords resultAD ! 0)\<bar> < 3 / 100 \<and>
   \<bar>sum_list (map ji_amount (j_items (res_joinedRecords resultAD ! 1)))
      - j_amount (res_joinedRecords resultAD ! 1)\<bar> < 3 / 100"
proof -
  have g: "goodReturn returnD" by code_simp
  then have h: "\<forall>amazonReturn \<in> set [returnD]. goodReturn amazonReturn" by simp
  have "res_joinedRecords resultAD ! 0 \<in> set (res_joinedRecords resultAD)"
    "res_joinedRecords resultAD ! 1 \<in> set (res_joinedRecords resultAD)"
    by (simp_all add: resultAD_def)
  with amounts_conserved[OF joinOrders_AD h] joinOrders_AD g show ?thesis by blast
qed

text \<open>
  Against C1 as written: a return of 25 whose only item is of -20 is paired with the
  credit of 25; the items of the record are the negated items of the return, 20 in all,
  5 away from the amount of the record.
\<close>

theorem amounts_counterexample:
  "joinOrders [transactionD] [] [returnE]
     = Some \<lparr>res_joinedRecords =
               [\<lparr>j_mintTransactionId = ''M2'', j_orderId = ''O7'', j_orderDate = 3 * DAY,
                 j_amount = 25,
                 j_items = [\<lparr>ji_trackingId = ''none'', ji_description = ''Amazon - Mug'',
                             ji_amount = 20\<rparr>],
                 j_isUnmodified = False\<rparr>],
             res_remainingMintTransactions = [],
             res_remainingAmazonOrders = [],
             res_remainingAmazonReturns = []\<rparr>
   \<and> \<not> \<bar>sum_list (map ji_amount [\<lparr>ji_trackingId = ''none'', ji_description = ''Amazon - Mug'',
                                     ji_amount = 20\<rparr>]) - 25\<bar> < (1 / 100 :: rat)"
  by code_simp

text \<open>
  With every return as \<^verbatim>\<open>getReturns\<close> makes it, the tolerance of 0.01 is still exceeded:
  an item of -9.9951 is rounded to -10.00 by \<^const>\<open>getTotalAmount\<close>, which matches a
  transaction of -10.0099, and the record is 0.0148 off.
\<close>

lemma joinOrders_halfcent:
  "joinOrders [transactionX] [orderX] []
     = Some \<lparr>res_joinedRecords =
               [\<lparr>j_mintTransactionId = ''M1'', j_orderId = ''O1'', j_orderDate = 0,
                 j_amount = - 100099 / 10000,
                 j_items = [\<lparr>ji_trackingId = ''T1'', ji_description = ''Amazon - Cable'',
                             ji_amount = - 99951 / 10000\<rparr>],
                 j_isUnmodified = False\<rparr>],
             res_remainingMintTransactions = [],
             res_remainingAmazonOrders = [],
             res_remainingAmazonReturns = []\<rparr>
   \<and> \<bar>- 99951 / 10000 - (- 100099 / 10000)\<bar> = (148 / 10000 :: rat)"
  by code_simp




section \<open>Orders that no strategy matches\<close>
























































section \<open>Running joinOrders again\<close>

















end
